theory Spec2Isabelle
  imports Main "HOL-Library.Sublist"
begin

section \<open>Text primitives of the Python runtime\<close>

text \<open>
  The program is \<^verbatim>\<open>investigate_stream.py\<close>. A Python \<^verbatim>\<open>str\<close> is modelled as a
  \<^typ>\<open>string\<close> whose characters are the code points below 256; text with code points
  beyond that range is outside the model. On that range the case folding of the regular
  expression engine only relates the ASCII letters, and the white space of
  \<^verbatim>\<open>str.strip()\<close> is the set listed in \<open>is_space\<close>.
\<close>

definition is_upper :: "char \<Rightarrow> bool" where
  "is_upper c = (65 \<le> (of_char c :: nat) \<and> (of_char c :: nat) \<le> 90)"

definition is_lower :: "char \<Rightarrow> bool" where
  "is_lower c = (97 \<le> (of_char c :: nat) \<and> (of_char c :: nat) \<le> 122)"

definition is_letter :: "char \<Rightarrow> bool" where
  "is_letter c = (is_upper c \<or> is_lower c)"

definition to_lower :: "char \<Rightarrow> char" where
  "to_lower c = (if is_upper c then char_of ((of_char c :: nat) + 32) else c)"

definition is_space :: "char \<Rightarrow> bool" where
  "is_space c = (let n = (of_char c :: nat) in
     (9 \<le> n \<and> n \<le> 13) \<or> (28 \<le> n \<and> n \<le> 32) \<or> n = 133 \<or> n = 160)"

text \<open>\<^verbatim>\<open>s.strip()\<close>: white space is removed at both ends.\<close>

definition py_strip :: "string \<Rightarrow> string" where
  "py_strip s = rev (dropWhile is_space (rev (dropWhile is_space s)))"

text \<open>
  \<^verbatim>\<open>s.replace(old, new)\<close>: the occurrences of \<open>old\<close> are found from the left and do
  not overlap; the scan goes on behind each replaced occurrence. For an empty \<open>old\<close>
  Python puts \<open>new\<close> before every character and at the end.
\<close>

function py_replace :: "string \<Rightarrow> string \<Rightarrow> string \<Rightarrow> string" where
  "py_replace old new s =
     (if old = [] then new @ concat (map (\<lambda>c. c # new) s)
      else if s = [] then []
      else if prefix old s then new @ py_replace old new (drop (length old) s)
      else hd s # py_replace old new (tl s))"
  by pat_completeness auto
termination
  by (relation "measure (\<lambda>(old, new, s). length s)") auto

declare py_replace.simps [simp del]

section \<open>The response parser\<close>

text \<open>
  \<^verbatim>\<open>
  def extract_section(label, text):
      match = re.search(rf"{label}:(.*?)(?=\n[A-Z]|$)", text, re.DOTALL | re.IGNORECASE)
      return match.group(1).strip() if match else "-"
  \<close>
  The label is pasted into the pattern. The model reads it as literal characters, which is
  what the engine does for a label made of letters, digits and underscores
  (\<open>plain_label\<close>); the five labels of the program are of that kind. The functions below
  follow the engine on this pattern: the literal part is matched ignoring case, the lazy
  group \<^verbatim>\<open>(.*?)\<close> grows by one character at a time until the lookahead holds, and the
  search tries the start positions from the left.
\<close>

definition plain_char :: "char \<Rightarrow> bool" where
  "plain_char c = (is_letter c \<or> (48 \<le> (of_char c :: nat) \<and> (of_char c :: nat) \<le> 57) \<or> c = CHR ''_'')"

definition plain_label :: "string \<Rightarrow> bool" where
  "plain_label l = list_all plain_char l"

text \<open>The literal characters of the pattern against the start of the text; the rest of
  the text is returned.\<close>

fun match_ci :: "string \<Rightarrow> string \<Rightarrow> string option" where
  "match_ci [] s = Some s"
| "match_ci (p # ps) [] = None"
| "match_ci (p # ps) (c # cs) = (if to_lower c = to_lower p then match_ci ps cs else None)"

text \<open>
  The lookahead \<^verbatim>\<open>(?=\n[A-Z]|$)\<close>. Under \<^verbatim>\<open>re.IGNORECASE\<close> the class
  \<^verbatim>\<open>[A-Z]\<close> holds the letters of both cases. Without \<^verbatim>\<open>re.MULTILINE\<close> the
  anchor \<^verbatim>\<open>$\<close> holds at the end of the text and before a newline that ends the text.
\<close>

fun lookahead :: "string \<Rightarrow> bool" where
  "lookahead [] = True"
| "lookahead [c] = (c = CHR 0x0A)"
| "lookahead (c # d # s) = (c = CHR 0x0A \<and> is_letter d)"

fun lazy_capture :: "string \<Rightarrow> string" where
  "lazy_capture [] = []"
| "lazy_capture (c # s) = (if lookahead (c # s) then [] else c # lazy_capture s)"

definition match_here :: "string \<Rightarrow> string \<Rightarrow> string option" where
  "match_here label s = map_option lazy_capture (match_ci (label @ '':'') s)"

fun re_search :: "string \<Rightarrow> string \<Rightarrow> string option" where
  "re_search label [] = match_here label []"
| "re_search label (c # s) =
     (case match_here label (c # s) of
        Some g \<Rightarrow> Some g
      | None \<Rightarrow> re_search label s)"

definition extract_section :: "string \<Rightarrow> string \<Rightarrow> string" where
  "extract_section label text =
     (case re_search label text of Some g \<Rightarrow> py_strip g | None \<Rightarrow> ''-'')"


text \<open>Case-insensitive occurrence of a pattern, used to say where a label is present.\<close>

fun ci_prefix :: "string \<Rightarrow> string \<Rightarrow> bool" where
  "ci_prefix [] s = True"
| "ci_prefix (p # ps) [] = False"
| "ci_prefix (p # ps) (c # cs) = (if to_lower c = to_lower p then ci_prefix ps cs else False)"

fun occurs_ci :: "string \<Rightarrow> string \<Rightarrow> bool" where
  "occurs_ci pat [] = ci_prefix pat []"
| "occurs_ci pat (c # s) = (if ci_prefix pat (c # s) then True else occurs_ci pat s)"

text \<open>A section body in which no line break is directly followed by a letter.\<close>

fun no_line_start :: "string \<Rightarrow> bool" where
  "no_line_start (c # d # s) = (\<not> (c = CHR 0x0A \<and> is_letter d) \<and> no_line_start (d # s))"
| "no_line_start s = True"

text \<open>Case-sensitive occurrence, and the number of places where a pattern occurs.\<close>

fun occurs :: "string \<Rightarrow> string \<Rightarrow> bool" where
  "occurs pat [] = (pat = [])"
| "occurs pat (c # s) = (if prefix pat (c # s) then True else occurs pat s)"

fun count_occurrences :: "string \<Rightarrow> string \<Rightarrow> nat" where
  "count_occurrences pat [] = (if pat = [] then 1 else 0)"
| "count_occurrences pat (c # s) =
     (if prefix pat (c # s) then 1 else 0) + count_occurrences pat s"

text \<open>\<open>first_at pat s k\<close>: ignoring case, \<open>pat\<close> occurs in \<open>s\<close> at position \<open>k\<close> and at no
  position before \<open>k\<close>.\<close>

fun first_at :: "string \<Rightarrow> string \<Rightarrow> nat \<Rightarrow> bool" where
  "first_at pat s 0 = ci_prefix pat s"
| "first_at pat [] (Suc k) = False"
| "first_at pat (c # s) (Suc k) = (if ci_prefix pat (c # s) then False else first_at pat s k)"

text \<open>A reply laid out in the five sections, each heading but the first at the start of a
  line; \<open>pre\<close> is what comes before the first heading.\<close>

definition five_sections ::
  "string \<Rightarrow> string \<Rightarrow> string \<Rightarrow> string \<Rightarrow> string \<Rightarrow> string \<Rightarrow> string" where
  "five_sections pre s1 s2 s3 s4 s5 =
     pre @ ''root_cause:'' @ s1 @ ''\<newline>confidence_score:'' @ s2 @ ''\<newline>next_steps:'' @ s3 @
     ''\<newline>summary_report:'' @ s4 @ ''\<newline>records:'' @ s5"

section \<open>Record store\<close>

text \<open>
  \<^verbatim>\<open>
  def get_row(df, txn_id):
      return df[df["txn_id"] == txn_id].to_dict(orient="records")
  \<close>
  The program uses two things of a ledger row: the value of its \<^verbatim>\<open>txn_id\<close> column and
  the text \<^verbatim>\<open>str(row)\<close> of its dict, which the Python runtime computes. Transaction
  ids are modelled by their text.
\<close>

record ledger_row =
  txn_id :: string
  row_str :: string

type_synonym table = "ledger_row list"

record ledgers =
  cbs :: table
  mpesa :: table
  switch :: table
  disb :: table

definition get_row :: "table \<Rightarrow> string \<Rightarrow> ledger_row list" where
  "get_row df t = filter (\<lambda>r. txn_id r = t) df"

section \<open>Prompt builder\<close>

text \<open>The template of \<^verbatim>\<open>prompt\<close>, cut at its five placeholders. The doubled braces
  of the template are single braces in the formatted text.\<close>

definition template_0 :: string where
  "template_0 =
     ''\<newline>'' @
     ''You are a banking operations assistant. A user has submitted an unmatched transaction that needs investigation.\<newline>'' @
     ''\<newline>'' @
     ''Transaction ID: ''"

definition template_1 :: string where
  "template_1 = ''\<newline>'' @ ''\<newline>'' @ ''CBS:\<newline>''"

definition template_2 :: string where
  "template_2 = ''\<newline>'' @ ''\<newline>'' @ ''M-Pesa:\<newline>''"

definition template_3 :: string where
  "template_3 = ''\<newline>'' @ ''\<newline>'' @ ''Switch Logs:\<newline>''"

definition template_4 :: string where
  "template_4 = ''\<newline>'' @ ''\<newline>'' @ ''Disbursement API:\<newline>''"

definition template_5 :: string where
  "template_5 =
     ''\<newline>'' @
     ''\<newline>'' @
     ''\<newline>'' @
     ''CBS is the main system where the reconcilling error or was discovered. Interogate the other systems i.e. M-Pesa, Switch Logs and Disbursement API then \<newline>'' @
     ''return very very brief and concise results with the following format:\<newline>'' @
     ''root_cause: Identify the likely root cause for the unmatched transaction \<newline>'' @
     ''confidence_score: Add a short confidence score (as a percentage) at the end, indicating how confident you are in your conclusion\<newline>'' @
     ''next_steps:  Recommend next steps to complete the transaction\<newline>'' @
     ''summary_report: short summary on how the transaction moved in the systems what contributed most to your conclusion\<newline>'' @
     ''records: return all records system and the records in json wrapped in {}\<newline>'' @
     ''\<newline>'' @
     ''do not output python code\<newline>'' @
     ''\<newline>''"

text \<open>The dict handed to \<^verbatim>\<open>chain.invoke\<close>.\<close>

record evidence =
  ev_txn_id :: string
  ev_cbs :: string
  ev_mpesa :: string
  ev_switch :: string
  ev_disb :: string

definition prompt_format :: "evidence \<Rightarrow> string" where
  "prompt_format ev =
     template_0 @ ev_txn_id ev @ template_1 @ ev_cbs ev @ template_2 @ ev_mpesa ev @
     template_3 @ ev_switch ev @ template_4 @ ev_disb ev @ template_5"

text \<open>
  The argument of \<^verbatim>\<open>chain.invoke\<close>, built from the four lookups; \<open>c\<close> is
  \<^verbatim>\<open>cbs_row[0]\<close>, which the caller has checked to exist.
\<close>

definition na_or_first :: "ledger_row list \<Rightarrow> string" where
  "na_or_first rows = (case rows of [] \<Rightarrow> ''N/A'' | r # _ \<Rightarrow> row_str r)"

definition evidence_bundle ::
  "string \<Rightarrow> ledger_row \<Rightarrow> ledger_row list \<Rightarrow> ledger_row list \<Rightarrow> ledger_row list \<Rightarrow> evidence" where
  "evidence_bundle t c mpesa_row switch_row disb_row =
     \<lparr>ev_txn_id = t, ev_cbs = row_str c, ev_mpesa = na_or_first mpesa_row,
      ev_switch = na_or_first switch_row, ev_disb = na_or_first disb_row\<rparr>"

section \<open>Narrative generation client\<close>

text \<open>
  The generation service is outside the repository. It is a parameter \<open>llm\<close> of the
  model: \<open>llm n p\<close> is what the call with prompt \<open>p\<close> gives when \<open>n\<close> calls were made
  before it, either the reply text or the exception it raises. An exception is modelled by
  its text. The session keeps the prompts sent, the lookups made and what was shown on the
  page.
\<close>

type_synonym exn = string

type_synonym llm = "nat \<Rightarrow> string \<Rightarrow> exn + string"

datatype ledger_name = Cbs | Mpesa | Switch | Disb

text \<open>The calls of the page that the program makes. The pictographs in some of the
  program's message texts are beyond code point 255 and are left out of the strings; the
  blank that follows a pictograph stays.\<close>

datatype ui_event =
    St_error string
  | St_exception exn
  | St_success string
  | St_markdown string
  | St_expander string
  | St_text_area string

record session =
  calls :: "string list"
  lookups :: "(ledger_name \<times> string) list"
  ui :: "ui_event list"

definition emit :: "ui_event list \<Rightarrow> session \<Rightarrow> session" where
  "emit evs st = st\<lparr>ui := ui st @ evs\<rparr>"

definition chain_invoke :: "llm \<Rightarrow> evidence \<Rightarrow> session \<Rightarrow> (exn + string) \<times> session" where
  "chain_invoke g ev st =
     (let p = prompt_format ev
      in (g (length (calls st)) p, st\<lparr>calls := calls st @ [p]\<rparr>))"

definition look_up_all :: "string \<Rightarrow> session \<Rightarrow> session" where
  "look_up_all t st = st\<lparr>lookups := lookups st @ [(Cbs, t), (Mpesa, t), (Switch, t), (Disb, t)]\<rparr>"

section \<open>Investigation result\<close>

record result =
  res_txn_id :: string
  root_cause :: string
  confidence_score :: string
  next_steps :: string
  summary_report :: string
  records :: string

text \<open>The three \<^verbatim>\<open>output.replace(..., "")\<close> calls, in the program's order.\<close>

definition fence :: string where
  "fence = [CHR 0x60, CHR 0x60, CHR 0x60]"

definition normalize_reply :: "string \<Rightarrow> string" where
  "normalize_reply output =
     py_replace ''Here is the solution:'' [] (py_replace ''output:'' [] (py_replace fence [] output))"

definition parse_reply :: "string \<Rightarrow> string \<Rightarrow> result" where
  "parse_reply t output =
     (let out = normalize_reply output
      in \<lparr>res_txn_id = t,
          root_cause = extract_section ''root_cause'' out,
          confidence_score = extract_section ''confidence_score'' out,
          next_steps = extract_section ''next_steps'' out,
          summary_report = extract_section ''summary_report'' out,
          records = extract_section ''records'' out\<rparr>)"

definition section_labels :: "string list" where
  "section_labels = [''root_cause'', ''confidence_score'', ''next_steps'', ''summary_report'', ''records'']"

text \<open>\<^verbatim>\<open>records_str.replace("nan", "None")\<close>.\<close>

definition nan_to_none :: "string \<Rightarrow> string" where
  "nan_to_none records_str = py_replace ''nan'' ''None'' records_str"

text \<open>
  What follows the replacement is library code: \<^verbatim>\<open>ast.literal_eval\<close>, the
  \<^verbatim>\<open>items()\<close> of its value and, for each system, the table text that
  \<^verbatim>\<open>tabulate\<close> gives for the one-row frame. It is a parameter of the model, which
  gives the systems with their table texts or the exception raised on the way.
\<close>

type_synonym records_reader = "string \<Rightarrow> exn + (string \<times> string) list"

definition combined_output :: "(string \<times> string) list \<Rightarrow> string" where
  "combined_output items =
     concat (map (\<lambda>(system, table_text). system @ ''\<newline>'' @ table_text @ ''\<newline>'') items)"

section \<open>Investigation orchestrator\<close>

text \<open>Decimal text of a count, for \<^verbatim>\<open>f"Processing {len(df_uploaded)} transactions..."\<close>.\<close>

function show_nat :: "nat \<Rightarrow> string" where
  "show_nat n =
     (if n < 10 then [char_of (48 + n)] else show_nat (n div 10) @ [char_of (48 + n mod 10)])"
  by pat_completeness auto
termination
  by (relation "measure id") auto

declare show_nat.simps [simp del]

subsection \<open>Single transaction (first tab)\<close>

text \<open>
  The body of \<^verbatim>\<open>if txn_id:\<close>. The four lookups are made first; without a core-banking
  row the error is shown and nothing else happens. Otherwise everything runs inside one
  \<^verbatim>\<open>try\<close>: an exception of the generation call or of the reading of the records
  ends it with \<^verbatim>\<open>st.error\<close> of the message \<open>Investigation failed.\<close> and
  \<^verbatim>\<open>st.exception(e)\<close>; what was shown before stays on the page. The second component is the list
  \<^verbatim>\<open>results\<close>.
\<close>

definition single_txn ::
  "llm \<Rightarrow> records_reader \<Rightarrow> ledgers \<Rightarrow> string \<Rightarrow> session \<Rightarrow> session \<times> result list" where
  "single_txn g rd L t st =
     (if t = [] then (st, [])
      else
        let st1 = look_up_all t st
        in case get_row (cbs L) t of
             [] \<Rightarrow> (emit [St_error ''Transaction ID not found in CBS data.''] st1, [])
           | c # _ \<Rightarrow>
               (case chain_invoke g
                       (evidence_bundle t c (get_row (mpesa L) t) (get_row (switch L) t)
                          (get_row (disb L) t)) st1 of
                  (Inl e, st2) \<Rightarrow>
                    (emit [St_error '' Investigation failed.'', St_exception e] st2, [])
                | (Inr output, st2) \<Rightarrow>
                    let r = parse_reply t output;
                        st3 = emit [St_expander (''** Details for '' @ res_txn_id r @ ''**''),
                                    St_markdown (''**Root Cause:** '' @ root_cause r),
                                    St_markdown (''**Confidence Level:** '' @ confidence_score r),
                                    St_markdown (''**Next Steps:** '' @ next_steps r),
                                    St_markdown (''**Summary Report:** '' @ summary_report r)] st2
                    in case rd (nan_to_none (records r)) of
                         Inl e \<Rightarrow>
                           (emit [St_error '' Investigation failed.'', St_exception e] st3, [r])
                       | Inr items \<Rightarrow>
                           (emit [St_text_area (combined_output items)] st3, [r])))"

subsection \<open>Batch of transactions (second tab)\<close>

text \<open>
  One turn of \<^verbatim>\<open>for index, row in df_uploaded.iterrows()\<close> for the id \<open>t\<close>. The
  inner \<^verbatim>\<open>try\<close> catches the exception of the generation call, shows it and appends
  nothing to \<^verbatim>\<open>results\<close>.
\<close>

definition investigate_row ::
  "llm \<Rightarrow> ledgers \<Rightarrow> string \<Rightarrow> session \<times> result list \<Rightarrow> session \<times> result list" where
  "investigate_row g L t acc =
     (let st1 = look_up_all t (fst acc); results = snd acc
      in case get_row (cbs L) t of
           [] \<Rightarrow> (emit [St_error ''Transaction ID not found in CBS data.''] st1, results)
         | c # _ \<Rightarrow>
             (case chain_invoke g
                     (evidence_bundle t c (get_row (mpesa L) t) (get_row (switch L) t)
                        (get_row (disb L) t)) st1 of
                (Inl e, st2) \<Rightarrow>
                  (emit [St_error '' Error during processing.'', St_exception e] st2, results)
              | (Inr output, st2) \<Rightarrow> (st2, results @ [parse_reply t output])))"

fun batch_loop ::
  "llm \<Rightarrow> ledgers \<Rightarrow> string list \<Rightarrow> session \<times> result list \<Rightarrow> session \<times> result list" where
  "batch_loop g L [] acc = acc"
| "batch_loop g L (t # ts) acc = batch_loop g L ts (investigate_row g L t acc)"

text \<open>
  The loop over \<^verbatim>\<open>df_results.iterrows()\<close> that shows the results. It has no
  \<^verbatim>\<open>try\<close> of its own: an exception of the reading of one row's records leaves the
  loop, with the rows behind it not shown. The first component is that exception. What the
  page library does with two text areas of the same key is not part of the model.
\<close>

fun show_rows :: "records_reader \<Rightarrow> result list \<Rightarrow> session \<Rightarrow> exn option \<times> session" where
  "show_rows rd [] st = (None, st)"
| "show_rows rd (r # rs) st =
     (let st1 = emit [St_markdown (res_txn_id r),
                      St_markdown (root_cause r),
                      St_markdown (confidence_score r),
                      St_markdown (next_steps r),
                      St_expander (''** Detailed Report for '' @ res_txn_id r @ ''**''),
                      St_markdown (''**Summary:** '' @ summary_report r)] st
      in case rd (nan_to_none (records r)) of
           Inl e \<Rightarrow> (Some e, st1)
         | Inr items \<Rightarrow> show_rows rd rs (emit [St_text_area (combined_output items)] st1))"

text \<open>
  The uploaded table, as \<^verbatim>\<open>pd.read_csv\<close> gives it, is a list of named columns;
  \<^verbatim>\<open>row["txn_id"]\<close> over the rows is the column of that name. \<open>upload\<close> is the
  outcome of \<^verbatim>\<open>pd.read_csv(uploaded_txn_file)\<close>, which may raise. The outer
  \<^verbatim>\<open>try\<close> encloses everything.
\<close>

type_synonym dataframe = "(string \<times> string list) list"

definition summary_header :: "ui_event list" where
  "summary_header =
     [St_markdown ''###  Transaction Investigation Summary'',
      St_markdown ''**Transaction ID**'',
      St_markdown ''**Root Cause**'',
      St_markdown ''**Confidence Level**'',
      St_markdown ''**Next Steps**'']"

definition missing_column_message :: string where
  "missing_column_message =
     ''CSV must contain a column named '' @ [CHR 0x27] @ ''txn_id'' @ [CHR 0x27] @ ''.''"

definition batch_upload ::
  "llm \<Rightarrow> records_reader \<Rightarrow> ledgers \<Rightarrow> exn + dataframe \<Rightarrow> session \<Rightarrow> session \<times> result list" where
  "batch_upload g rd L upload st =
     (case upload of
        Inl e \<Rightarrow> (emit [St_error '' Failed to process uploaded file.'', St_exception e] st, [])
      | Inr df \<Rightarrow>
          (case map_of df ''txn_id'' of
             None \<Rightarrow> (emit [St_error missing_column_message] st, [])
           | Some ids \<Rightarrow>
               (let acc = batch_loop g L ids
                            (emit [St_success (''Processing '' @ show_nat (length ids) @ '' transactions...'')] st, []);
                    results = snd acc
                in if results = [] then acc
                   else
                     (case show_rows rd results (emit summary_header (fst acc)) of
                        (None, st2) \<Rightarrow> (st2, results)
                      | (Some e, st2) \<Rightarrow>
                          (emit [St_error '' Failed to process uploaded file.'', St_exception e] st2,
                           results)))))"

definition session0 :: session where
  "session0 = \<lparr>calls = [], lookups = [], ui = []\<rparr>"

section \<open>Notions used to state the properties\<close>

text \<open>The three noise markers that the normalization removes, and a run of them.\<close>

datatype noise = Fence | Output_prefix | Solution_prefix

fun marker_text :: "noise \<Rightarrow> string" where
  "marker_text Fence = fence"
| "marker_text Output_prefix = ''output:''"
| "marker_text Solution_prefix = ''Here is the solution:''"

definition noise_text :: "noise list \<Rightarrow> string" where
  "noise_text ms = concat (map marker_text ms)"

abbreviation (input) bt :: char where
  "bt \<equiv> CHR 0x60"


text \<open>The prompt sent for a transaction that has a core-banking row, the lookups of one
  turn of the loop, and what one turn shows and appends for a given outcome of the
  generation call.\<close>

definition prompt_of :: "ledgers \<Rightarrow> string \<Rightarrow> string" where
  "prompt_of L t =
     prompt_format (evidence_bundle t (hd (get_row (cbs L) t)) (get_row (mpesa L) t)
        (get_row (switch L) t) (get_row (disb L) t))"

definition row_lookups :: "string \<Rightarrow> (ledger_name \<times> string) list" where
  "row_lookups t = [(Cbs, t), (Mpesa, t), (Switch, t), (Disb, t)]"

definition failure_events :: "(exn + string) \<Rightarrow> ui_event list" where
  "failure_events out =
     (case out of
        Inl e \<Rightarrow> [St_error '' Error during processing.'', St_exception e]
      | Inr _ \<Rightarrow> [])"

definition parsed :: "string \<Rightarrow> (exn + string) \<Rightarrow> result list" where
  "parsed t out = (case out of Inl e \<Rightarrow> [] | Inr reply \<Rightarrow> [parse_reply t reply])"

subsection \<open>Sample data\<close>

text \<open>Two transactions with a core-banking row; the first also has a switch row. No
  mobile-money and no disbursement rows.\<close>

definition demo_ledgers :: ledgers where
  "demo_ledgers =
     \<lparr>cbs = [\<lparr>txn_id = ''TXN1'', row_str = ''{'txn_id': 'TXN1', 'amount': 100}''\<rparr>,
             \<lparr>txn_id = ''TXN2'', row_str = ''{'txn_id': 'TXN2', 'amount': 250}''\<rparr>],
      mpesa = [],
      switch = [\<lparr>txn_id = ''TXN1'', row_str = ''{'txn_id': 'TXN1', 'status': 'ok'}''\<rparr>],
      disb = []\<rparr>"

definition demo_reply :: string where
  "demo_reply =
     ''root_cause: Switch timeout\<newline>'' @
     ''confidence_score: 90%\<newline>'' @
     ''next_steps: Retry the payment\<newline>'' @
     ''summary_report: CBS posted, switch failed\<newline>'' @
     ''records: {}''"

definition reply_without_records :: string where
  "reply_without_records =
     ''root_cause: Switch timeout\<newline>'' @
     ''confidence_score: 90%\<newline>'' @
     ''next_steps: Retry the payment\<newline>'' @
     ''summary_report: CBS posted, switch failed''"

text \<open>A service whose second call raises, and one whose first reply has no records
  section.\<close>

definition llm_second_fails :: llm where
  "llm_second_fails n p = (if n = 1 then Inl ''ServiceUnavailable'' else Inr demo_reply)"

definition llm_first_no_records :: llm where
  "llm_first_no_records n p = (if n = 0 then Inr reply_without_records else Inr demo_reply)"

text \<open>A reader that is right on the two texts it is given below: \<^verbatim>\<open>ast.literal_eval("{}")\<close>
  is the empty dict, and \<^verbatim>\<open>ast.literal_eval("-")\<close> raises \<^verbatim>\<open>SyntaxError\<close>.\<close>

definition demo_reader :: records_reader where
  "demo_reader s = (if s = ''{}'' then Inr [] else Inl ''SyntaxError'')"

text \<open>A reply whose first section mentions the records label in the middle of a line, and a
  reply with a preamble, a section of two lines and a newline at the end.\<close>

definition embedded_reply :: string where
  "embedded_reply = ''root_cause: see Records: none yet\<newline>records: {}''"

definition multi_line_reply :: string where
  "multi_line_reply =
     five_sections ''Here you go\<newline>'' '' Switch timeout'' '' 90%''
       '' Retry the payment\<newline>- call the switch team''
       '' CBS posted, switch failed'' '' {'CBS': {'amount': 100}}\<newline>''"

text \<open>A well-formed reply whose summary has the words \<open>output:\<close> in it, and ledgers whose
  transaction id has \<open>N/A\<close> inside.\<close>

definition reply_mentioning_output :: string where
  "reply_mentioning_output =
     five_sections [] '' Timeout'' '' 90%'' '' Retry'' '' Switch output: timeout'' '' {}''"

definition slash_ledgers :: ledgers where
  "slash_ledgers =
     \<lparr>cbs = [\<lparr>txn_id = ''TXN/A1'', row_str = ''{'txn_id': 'TXN/A1', 'amount': 100}''\<rparr>],
      mpesa = [],
      switch = [\<lparr>txn_id = ''TXN/A1'', row_str = ''{'txn_id': 'TXN/A1', 'status': 'ok'}''\<rparr>],
      disb = []\<rparr>"

section \<open>Character predicates on the bits of a character\<close>

text \<open>The predicates are defined on code points; on the eight bits of a character they
  evaluate without arithmetic.\<close>

lemma is_upper_Char [code]:
  "is_upper (Char b0 b1 b2 b3 b4 b5 b6 b7) =
     (\<not> b7 \<and> b6 \<and> \<not> b5 \<and> (b0 \<or> b1 \<or> b2 \<or> b3 \<or> b4) \<and> \<not> (b4 \<and> b3 \<and> (b2 \<or> (b1 \<and> b0))))"
  by (cases b0; cases b1; cases b2; cases b3; cases b4; cases b5; cases b6; cases b7;
      simp add: is_upper_def)

lemma is_lower_Char [code]:
  "is_lower (Char b0 b1 b2 b3 b4 b5 b6 b7) =
     (\<not> b7 \<and> b6 \<and> b5 \<and> (b0 \<or> b1 \<or> b2 \<or> b3 \<or> b4) \<and> \<not> (b4 \<and> b3 \<and> (b2 \<or> (b1 \<and> b0))))"
  by (cases b0; cases b1; cases b2; cases b3; cases b4; cases b5; cases b6; cases b7;
      simp add: is_lower_def)

lemma to_lower_Char [code]:
  "to_lower (Char b0 b1 b2 b3 b4 b5 b6 b7) =
     (if is_upper (Char b0 b1 b2 b3 b4 b5 b6 b7) then Char b0 b1 b2 b3 b4 True b6 b7
      else Char b0 b1 b2 b3 b4 b5 b6 b7)"
  by (cases b0; cases b1; cases b2; cases b3; cases b4; cases b5; cases b6; cases b7;
      simp add: to_lower_def is_upper_def char_of_eq_iff)

lemma is_space_Char [code]:
  "is_space (Char b0 b1 b2 b3 b4 b5 b6 b7) =
     (if b7 then \<not> b6 \<and> \<not> b4 \<and> \<not> b3 \<and> \<not> b1 \<and> ((b5 \<and> \<not> b2 \<and> \<not> b0) \<or> (\<not> b5 \<and> b2 \<and> b0))
      else \<not> b6 \<and>
        ((\<not> b5 \<and> \<not> b4 \<and> b3 \<and> (b0 \<or> b1 \<or> b2) \<and> \<not> (b2 \<and> b1)) \<or>
         (\<not> b5 \<and> b4 \<and> b3 \<and> b2) \<or>
         (b5 \<and> \<not> b4 \<and> \<not> b3 \<and> \<not> b2 \<and> \<not> b1 \<and> \<not> b0)))"
  by (cases b0; cases b1; cases b2; cases b3; cases b4; cases b5; cases b6; cases b7;
      simp add: is_space_def)

section \<open>Properties of the replacement\<close>

lemma py_replace_Nil: "old \<noteq> [] \<Longrightarrow> py_replace old new [] = []"
  by (simp add: py_replace.simps)

lemma py_replace_hit:
  "old \<noteq> [] \<Longrightarrow> py_replace old new (old @ s) = new @ py_replace old new s"
  by (subst py_replace.simps) simp

lemma py_replace_miss:
  "old \<noteq> [] \<Longrightarrow> \<not> prefix old (c # s) \<Longrightarrow>
     py_replace old new (c # s) = c # py_replace old new s"
  by (subst py_replace.simps) simp

text \<open>A character of the result that is not the \<open>N\<close> of a replacement was copied from
  the input.\<close>

lemma nan_head:
  assumes "py_replace ''nan'' ''None'' s = x # t" and "x \<noteq> CHR ''N''"
  shows "\<exists>s'. s = x # s' \<and> t = py_replace ''nan'' ''None'' s'"
proof (cases "prefix ''nan'' s")
  case True
  then obtain r where "s = ''nan'' @ r"
    by (auto simp: prefix_def)
  with assms show ?thesis
    using py_replace_hit [of "''nan''" "''None''" r] by simp
next
  case False
  with assms show ?thesis
    by (cases s) (simp_all add: py_replace_Nil py_replace_miss)
qed

lemma nan_no_new_hit:
  assumes "prefix ''nan'' (c # py_replace ''nan'' ''None'' s)"
  shows "prefix ''nan'' (c # s)"
proof -
  from assms obtain t where c: "c = CHR ''n''"
    and t: "py_replace ''nan'' ''None'' s = CHR ''a'' # CHR ''n'' # t"
    by (auto simp: prefix_def)
  from nan_head [OF t] obtain s' where s: "s = CHR ''a'' # s'"
    and t': "py_replace ''nan'' ''None'' s' = CHR ''n'' # t"
    by auto
  from nan_head [OF t'] obtain s'' where "s' = CHR ''n'' # s''"
    by auto
  with c s show ?thesis by simp
qed

lemma nan_replace_twice:
  "py_replace ''nan'' ''None'' (py_replace ''nan'' ''None'' s) = py_replace ''nan'' ''None'' s"
proof (induction s rule: length_induct)
  case (1 s)
  show ?case
  proof (cases "prefix ''nan'' s")
    case True
    then obtain r where r: "s = ''nan'' @ r"
      by (auto simp: prefix_def)
    have ih: "py_replace ''nan'' ''None'' (py_replace ''nan'' ''None'' r) = py_replace ''nan'' ''None'' r"
      using 1 r by simp
    have "py_replace ''nan'' ''None'' s = ''None'' @ py_replace ''nan'' ''None'' r"
      using r py_replace_hit [of "''nan''" "''None''" r] by simp
    moreover have "py_replace ''nan'' ''None'' (''None'' @ u) = ''None'' @ py_replace ''nan'' ''None'' u" for u
      by (simp add: py_replace_miss)
    ultimately show ?thesis
      using ih by simp
  next
    case False
    show ?thesis
    proof (cases s)
      case Nil
      then show ?thesis by (simp add: py_replace_Nil)
    next
      case (Cons c s')
      have ih: "py_replace ''nan'' ''None'' (py_replace ''nan'' ''None'' s') = py_replace ''nan'' ''None'' s'"
        using 1 Cons by simp
      have e: "py_replace ''nan'' ''None'' s = c # py_replace ''nan'' ''None'' s'"
        using False Cons by (simp add: py_replace_miss)
      have "\<not> prefix ''nan'' (c # py_replace ''nan'' ''None'' s')"
        using nan_no_new_hit False Cons by blast
      then show ?thesis
        using e ih by (simp add: py_replace_miss)
    qed
  qed
qed

text \<open>
  Claim C7. Replacing every \<open>nan\<close> of the records text by \<open>None\<close> is idempotent: for every
  text, doing it a second time changes nothing.
\<close>

theorem nan_to_none_idempotent: "nan_to_none (nan_to_none s) = nan_to_none s"
  by (simp add: nan_to_none_def nan_replace_twice)

section \<open>Properties of the orchestrator\<close>

lemma calls_emit [simp]: "calls (emit evs st) = calls st"
  by (simp add: emit_def)

lemma calls_look_up_all [simp]: "calls (look_up_all t st) = calls st"
  by (simp add: look_up_all_def)

lemma calls_investigate_row:
  "calls (fst (investigate_row g L t acc)) =
     calls (fst acc) @
       (case get_row (cbs L) t of
          [] \<Rightarrow> []
        | c # _ \<Rightarrow>
            [prompt_format (evidence_bundle t c (get_row (mpesa L) t) (get_row (switch L) t)
               (get_row (disb L) t))])"
  by (simp add: investigate_row_def chain_invoke_def Let_def split: list.split sum.split)

lemma length_calls_batch_loop:
  "length (calls (fst (batch_loop g L ids acc))) =
     length (calls (fst acc)) + length (filter (\<lambda>t. get_row (cbs L) t \<noteq> []) ids)"
proof (induction ids arbitrary: acc)
  case Nil
  show ?case by simp
next
  case (Cons t ts)
  show ?case
    by (simp add: Cons.IH calls_investigate_row split: list.split)
qed

text \<open>
  Claim C2. A transaction id without a core-banking row gets the "not found" message and
  no generation call is made for it: in the single path (for an id that was entered) the
  message is all that is shown and the list of prompts sent is unchanged; in the batch
  path the turn of the loop for that id shows the message, sends no prompt and appends no
  result, and over a whole batch the number of prompts sent is the number of ids that do
  have a core-banking row.
\<close>

theorem not_found_makes_no_call:
  assumes "get_row (cbs L) t = []"
  shows "(t \<noteq> [] \<longrightarrow>
            single_txn g rd L t st =
              (emit [St_error ''Transaction ID not found in CBS data.''] (look_up_all t st), []) \<and>
            calls (fst (single_txn g rd L t st)) = calls st) \<and>
         investigate_row g L t (st, rs) =
           (emit [St_error ''Transaction ID not found in CBS data.''] (look_up_all t st), rs) \<and>
         calls (fst (investigate_row g L t (st, rs))) = calls st \<and>
         length (calls (fst (batch_loop g L ids (st, rs)))) =
           length (calls st) + length (filter (\<lambda>u. get_row (cbs L) u \<noteq> []) ids)"
  using assms by (simp add: single_txn_def investigate_row_def length_calls_batch_loop)

theorem not_found_makes_no_call_witness:
  "get_row (cbs demo_ledgers) ''TXN9'' = [] \<and>
   single_txn llm_second_fails demo_reader demo_ledgers ''TXN9'' session0 =
     (\<lparr>calls = [],
       lookups = [(Cbs, ''TXN9''), (Mpesa, ''TXN9''), (Switch, ''TXN9''), (Disb, ''TXN9'')],
       ui = [St_error ''Transaction ID not found in CBS data.'']\<rparr>, []) \<and>
   calls (fst (investigate_row llm_second_fails demo_ledgers ''TXN9'' (session0, []))) = [] \<and>
   length (calls (fst (batch_loop llm_second_fails demo_ledgers [''TXN9'', ''TXN1'', ''TXN8'']
      (session0, [])))) = 1"
proof -
  have h: "get_row (cbs demo_ledgers) ''TXN9'' = []"
    by (simp add: get_row_def demo_ledgers_def)
  note t = not_found_makes_no_call [OF h, of llm_second_fails demo_reader session0 "[]"
      "[''TXN9'', ''TXN1'', ''TXN8'']"]
  have a: "single_txn llm_second_fails demo_reader demo_ledgers ''TXN9'' session0 =
      (emit [St_error ''Transaction ID not found in CBS data.''] (look_up_all ''TXN9'' session0), [])"
    using t by blast
  have b: "emit [St_error ''Transaction ID not found in CBS data.''] (look_up_all ''TXN9'' session0) =
      \<lparr>calls = [],
       lookups = [(Cbs, ''TXN9''), (Mpesa, ''TXN9''), (Switch, ''TXN9''), (Disb, ''TXN9'')],
       ui = [St_error ''Transaction ID not found in CBS data.'']\<rparr>"
    by (simp add: emit_def look_up_all_def session0_def)
  have c: "calls (fst (investigate_row llm_second_fails demo_ledgers ''TXN9'' (session0, []))) =
      calls session0"
    using t by blast
  have d: "length (calls (fst (batch_loop llm_second_fails demo_ledgers [''TXN9'', ''TXN1'', ''TXN8'']
      (session0, [])))) =
      length (calls session0) +
      length (filter (\<lambda>u. get_row (cbs demo_ledgers) u \<noteq> []) [''TXN9'', ''TXN1'', ''TXN8''])"
    using t by blast
  have e: "filter (\<lambda>u. get_row (cbs demo_ledgers) u \<noteq> []) [''TXN9'', ''TXN1'', ''TXN8''] = [''TXN1'']"
    by (simp add: get_row_def demo_ledgers_def)
  have f: "calls session0 = []"
    by (simp add: session0_def)
  show ?thesis
    by (simp only: h a b c d e f) simp
qed

text \<open>
  Claim C9. An uploaded table without a column named \<open>txn_id\<close> gives one error message
  and nothing else: the prompts sent and the lookups made are unchanged and the list of
  results is empty.
\<close>

theorem missing_txn_id_column:
  assumes "''txn_id'' \<notin> set (map fst df)"
  shows "batch_upload g rd L (Inr df) st = (emit [St_error missing_column_message] st, []) \<and>
         calls (fst (batch_upload g rd L (Inr df) st)) = calls st \<and>
         lookups (fst (batch_upload g rd L (Inr df) st)) = lookups st \<and>
         ui (fst (batch_upload g rd L (Inr df) st)) = ui st @ [St_error missing_column_message]"
proof -
  from assms have "map_of df ''txn_id'' = None"
    by (simp add: map_of_eq_None_iff)
  then show ?thesis
    by (simp add: batch_upload_def emit_def)
qed

theorem missing_txn_id_column_witness:
  "''txn_id'' \<notin> set (map fst [(''id'', [''TXN1'', ''TXN2''])]) \<and>
   batch_upload llm_second_fails demo_reader demo_ledgers (Inr [(''id'', [''TXN1'', ''TXN2''])])
       session0 =
     (\<lparr>calls = [], lookups = [], ui = [St_error missing_column_message]\<rparr>, [])"
proof -
  have h: "''txn_id'' \<notin> set (map fst [(''id'', [''TXN1'', ''TXN2''])])"
    by simp
  show ?thesis
    using h
      missing_txn_id_column [OF h, of llm_second_fails demo_reader demo_ledgers session0]
    by (simp add: session0_def emit_def)
qed

lemma investigate_row_found:
  assumes "get_row (cbs L) t \<noteq> []"
  shows "investigate_row g L t (st, rs) =
     (st\<lparr>calls := calls st @ [prompt_of L t],
         lookups := lookups st @ row_lookups t,
         ui := ui st @ failure_events (g (length (calls st)) (prompt_of L t))\<rparr>,
      rs @ parsed t (g (length (calls st)) (prompt_of L t)))"
  using assms
  by (cases "get_row (cbs L) t")
     (simp_all add: investigate_row_def chain_invoke_def look_up_all_def emit_def prompt_of_def
        row_lookups_def failure_events_def parsed_def Let_def split: sum.split)

text \<open>The loop over ids that all have a core-banking row, for any outcomes \<open>out i\<close> of
  the generation calls.\<close>

lemma batch_loop_found:
  assumes "\<forall>t\<in>set ids. get_row (cbs L) t \<noteq> []"
      and "\<forall>i<length ids. g (length (calls st) + i) (prompt_of L (ids ! i)) = out i"
  shows "batch_loop g L ids (st, rs) =
     (st\<lparr>calls := calls st @ map (prompt_of L) ids,
         lookups := lookups st @ concat (map row_lookups ids),
         ui := ui st @ concat (map (\<lambda>i. failure_events (out i)) [0..<length ids])\<rparr>,
      rs @ concat (map (\<lambda>i. parsed (ids ! i) (out i)) [0..<length ids]))"
  using assms
proof (induction ids arbitrary: st rs out)
  case Nil
  show ?case by simp
next
  case (Cons t ts)
  let ?st1 = "st\<lparr>calls := calls st @ [prompt_of L t],
         lookups := lookups st @ row_lookups t,
         ui := ui st @ failure_events (g (length (calls st)) (prompt_of L t))\<rparr>"
  have out0: "g (length (calls st)) (prompt_of L t) = out 0"
    using Cons.prems(2) by auto
  have step: "investigate_row g L t (st, rs) = (?st1, rs @ parsed t (out 0))"
    using Cons.prems(1) by (simp add: investigate_row_found out0)
  have found: "\<forall>t\<in>set ts. get_row (cbs L) t \<noteq> []"
    using Cons.prems(1) by simp
  have outs: "\<forall>i<length ts. g (length (calls ?st1) + i) (prompt_of L (ts ! i)) = (out \<circ> Suc) i"
  proof (intro allI impI)
    fix i assume "i < length ts"
    then have "g (length (calls st) + Suc i) (prompt_of L ((t # ts) ! Suc i)) = out (Suc i)"
      using Cons.prems(2) by auto
    then show "g (length (calls ?st1) + i) (prompt_of L (ts ! i)) = (out \<circ> Suc) i"
      by simp
  qed
  have shift: "[0..<length (t # ts)] = 0 # map Suc [0..<length ts]"
    by (simp add: upt_conv_Cons map_Suc_upt del: upt_Suc)
  show ?case
    unfolding batch_loop.simps step
    by (simp only: Cons.IH [OF found outs] shift)
       (simp add: out0 comp_def)
qed

text \<open>
  Claim C1, as amended. In a batch of \<open>N\<close> ids that all have a core-banking row, where the
  generation call of transaction \<open>k\<close> raises and every other call returns a reply, the
  list of results has \<open>N - 1\<close> entries: the parsed replies of the other transactions, in
  input order. Transaction \<open>k\<close> has no entry; for it the message "Error during
  processing." and the exception are shown, and these are the only failure messages. All
  \<open>N\<close> prompts are sent, so the transactions behind \<open>k\<close> are processed.
\<close>

theorem batch_one_generation_failure:
  assumes "k < length ids"
      and "\<forall>t\<in>set ids. get_row (cbs L) t \<noteq> []"
      and "\<forall>i<length ids. g (length (calls st) + i) (prompt_of L (ids ! i)) =
             (if i = k then Inl e else Inr (reply i))"
  shows "snd (batch_loop g L ids (st, [])) =
           map (\<lambda>i. parse_reply (ids ! i) (reply i)) (filter (\<lambda>i. i \<noteq> k) [0..<length ids]) \<and>
         length (snd (batch_loop g L ids (st, []))) = length ids - 1 \<and>
         ui (fst (batch_loop g L ids (st, []))) =
           ui st @ [St_error '' Error during processing.'', St_exception e] \<and>
         calls (fst (batch_loop g L ids (st, []))) = calls st @ map (prompt_of L) ids"
proof -
  let ?out = "\<lambda>i. if i = k then Inl e else Inr (reply i)"
  have loop: "batch_loop g L ids (st, []) =
     (st\<lparr>calls := calls st @ map (prompt_of L) ids,
         lookups := lookups st @ concat (map row_lookups ids),
         ui := ui st @ concat (map (\<lambda>i. failure_events (?out i)) [0..<length ids])\<rparr>,
      [] @ concat (map (\<lambda>i. parsed (ids ! i) (?out i)) [0..<length ids]))"
    using assms(2,3) by (rule batch_loop_found)
  have res: "concat (map (\<lambda>i. parsed (ids ! i) (?out i)) xs) =
      map (\<lambda>i. parse_reply (ids ! i) (reply i)) (filter (\<lambda>i. i \<noteq> k) xs)" for xs
    by (induction xs) (simp_all add: parsed_def)
  have split: "[0..<length ids] = [0..<k] @ k # [Suc k..<length ids]"
  proof -
    have "[0..<length ids] = [0..<k] @ [k..<length ids]"
      using assms(1) upt_add_eq_append [of 0 k "length ids - k"] by simp
    also have "[k..<length ids] = k # [Suc k..<length ids]"
      using assms(1) by (simp add: upt_conv_Cons)
    finally show ?thesis .
  qed
  have none: "\<forall>i\<in>set xs. i \<noteq> k \<Longrightarrow> concat (map (\<lambda>i. failure_events (?out i)) xs) = []" for xs
    by (induction xs) (simp_all add: failure_events_def)
  have evs: "concat (map (\<lambda>i. failure_events (?out i)) [0..<length ids]) =
      [St_error '' Error during processing.'', St_exception e]"
  proof -
    have a: "concat (map (\<lambda>i. failure_events (?out i)) [0..<k]) = []"
      by (rule none) simp
    have b: "concat (map (\<lambda>i. failure_events (?out i)) [Suc k..<length ids]) = []"
      by (rule none) simp
    have c: "failure_events (?out k) = [St_error '' Error during processing.'', St_exception e]"
      by (simp add: failure_events_def)
    show ?thesis
      by (subst split)
         (simp only: map_append list.map concat_append concat.simps a b c append_Nil append_Nil2)
  qed
  have len: "length (filter (\<lambda>i. i \<noteq> k) [0..<length ids]) = length ids - 1"
    using assms(1) by (subst split) simp
  show ?thesis
    by (simp add: loop res evs len)
qed

theorem batch_one_generation_failure_witness:
  "(1::nat) < length [''TXN1'', ''TXN2''] \<and>
   snd (batch_loop llm_second_fails demo_ledgers [''TXN1'', ''TXN2''] (session0, [])) =
     [parse_reply ''TXN1'' demo_reply] \<and>
   length (snd (batch_loop llm_second_fails demo_ledgers [''TXN1'', ''TXN2''] (session0, []))) = 1 \<and>
   ui (fst (batch_loop llm_second_fails demo_ledgers [''TXN1'', ''TXN2''] (session0, []))) =
     [St_error '' Error during processing.'', St_exception ''ServiceUnavailable'']"
proof -
  have h1: "(1::nat) < length [''TXN1'', ''TXN2'']"
    by simp
  have h2: "\<forall>t\<in>set [''TXN1'', ''TXN2'']. get_row (cbs demo_ledgers) t \<noteq> []"
    by (simp add: get_row_def demo_ledgers_def)
  have h3: "\<forall>i<length [''TXN1'', ''TXN2''].
      llm_second_fails (length (calls session0) + i) (prompt_of demo_ledgers ([''TXN1'', ''TXN2''] ! i)) =
        (if i = 1 then Inl ''ServiceUnavailable'' else Inr ((\<lambda>_. demo_reply) i))"
    by (simp add: llm_second_fails_def session0_def)
  note t = batch_one_generation_failure [OF h1 h2 h3]
  have idx: "filter (\<lambda>i. i \<noteq> 1) [0..<length [''TXN1'', ''TXN2'']] = [0::nat]"
    by (simp add: upt_conv_Cons)
  have u: "ui session0 = []"
    by (simp add: session0_def)
  show ?thesis
    using h1 t by (simp only: idx u) simp
qed

text \<open>
  Claim C1 as stated fails: with two transactions and a second generation call that raises,
  the list of results holds the first transaction only.
\<close>

theorem batch_generation_failure_counterexample:
  "map res_txn_id (snd (batch_loop llm_second_fails demo_ledgers [''TXN1'', ''TXN2''] (session0, []))) =
     [''TXN1''] \<and>
   length (snd (batch_loop llm_second_fails demo_ledgers [''TXN1'', ''TXN2''] (session0, []))) \<noteq>
     length [''TXN1'', ''TXN2'']"
proof -
  have h2: "\<forall>t\<in>set [''TXN1'', ''TXN2'']. get_row (cbs demo_ledgers) t \<noteq> []"
    by (simp add: get_row_def demo_ledgers_def)
  have h3: "\<forall>i<length [''TXN1'', ''TXN2''].
      llm_second_fails (length (calls session0) + i) (prompt_of demo_ledgers ([''TXN1'', ''TXN2''] ! i)) =
        (if i = 1 then Inl ''ServiceUnavailable'' else Inr demo_reply)"
    by (simp add: llm_second_fails_def session0_def)
  have idx: "[0..<length [''TXN1'', ''TXN2'']] = [0, 1]"
    by (simp add: upt_conv_Cons)
  show ?thesis
    by (simp only: batch_loop_found [OF h2 h3] idx)
       (simp add: parsed_def parse_reply_def Let_def)
qed

lemma parse_reply_without_records:
  "parse_reply ''TXN1'' reply_without_records =
     \<lparr>res_txn_id = ''TXN1'', root_cause = ''Switch timeout'', confidence_score = ''90%'',
      next_steps = ''Retry the payment'', summary_report = ''CBS posted, switch failed'',
      records = ''-''\<rparr>"
  by code_simp

lemma parse_demo_reply:
  "parse_reply ''TXN2'' demo_reply =
     \<lparr>res_txn_id = ''TXN2'', root_cause = ''Switch timeout'', confidence_score = ''90%'',
      next_steps = ''Retry the payment'', summary_report = ''CBS posted, switch failed'',
      records = ''{}''\<rparr>"
  by code_simp

lemma show_rows_failure:
  assumes "rd (nan_to_none (records r)) = Inl e"
  shows "show_rows rd (r # rs) st =
     (Some e, emit [St_markdown (res_txn_id r), St_markdown (root_cause r),
                    St_markdown (confidence_score r), St_markdown (next_steps r),
                    St_expander (''** Detailed Report for '' @ res_txn_id r @ ''**''),
                    St_markdown (''**Summary:** '' @ summary_report r)] st)"
  using assms by (simp add: Let_def)

text \<open>
  Claim C5, at a batch of two transactions where the reply for the first has no records
  section. Both transactions are processed and have a result; the records text of the first
  is the placeholder \<open>-\<close>, which the reader rejects. The page shows the first
  transaction's fields, then the message of the outer handler and the exception; the second
  transaction is not shown.
\<close>

theorem records_failure_hides_later_rows:
  "ui (fst (batch_upload llm_first_no_records demo_reader demo_ledgers
       (Inr [(''txn_id'', [''TXN1'', ''TXN2''])]) session0)) =
     [St_success ''Processing 2 transactions...''] @ summary_header @
     [St_markdown ''TXN1'', St_markdown ''Switch timeout'', St_markdown ''90%'',
      St_markdown ''Retry the payment'',
      St_expander ''** Detailed Report for TXN1**'',
      St_markdown ''**Summary:** CBS posted, switch failed'',
      St_error '' Failed to process uploaded file.'',
      St_exception ''SyntaxError''] \<and>
   map res_txn_id (snd (batch_upload llm_first_no_records demo_reader demo_ledgers
       (Inr [(''txn_id'', [''TXN1'', ''TXN2''])]) session0)) = [''TXN1'', ''TXN2''] \<and>
   map records (snd (batch_upload llm_first_no_records demo_reader demo_ledgers
       (Inr [(''txn_id'', [''TXN1'', ''TXN2''])]) session0)) = [''-'', ''{}'']"
proof -
  let ?ids = "[''TXN1'', ''TXN2'']"
  let ?st1 = "emit [St_success (''Processing '' @ show_nat (length ?ids) @ '' transactions...'')] session0"
  let ?out = "\<lambda>i::nat. if i = 0 then Inr reply_without_records else (Inr demo_reply :: exn + string)"
  let ?r1 = "parse_reply ''TXN1'' reply_without_records"
  let ?r2 = "parse_reply ''TXN2'' demo_reply"
  have h2: "\<forall>t\<in>set ?ids. get_row (cbs demo_ledgers) t \<noteq> []"
    by (simp add: get_row_def demo_ledgers_def)
  have h3: "\<forall>i<length ?ids.
      llm_first_no_records (length (calls ?st1) + i) (prompt_of demo_ledgers (?ids ! i)) = ?out i"
    by (simp add: llm_first_no_records_def session0_def)
  have idx: "[0..<length ?ids] = [0, 1]"
    by (simp add: upt_conv_Cons)
  have loop: "batch_loop llm_first_no_records demo_ledgers ?ids (?st1, []) =
      (?st1\<lparr>calls := calls ?st1 @ map (prompt_of demo_ledgers) ?ids,
            lookups := lookups ?st1 @ concat (map row_lookups ?ids),
            ui := ui ?st1\<rparr>, [?r1, ?r2])"
    by (simp only: batch_loop_found [OF h2 h3] idx)
       (simp add: parsed_def failure_events_def)
  have n: "show_nat (Suc (Suc 0)) = ''2''"
    by code_simp
  have fail: "demo_reader (nan_to_none (records ?r1)) = Inl ''SyntaxError''"
    by (simp add: parse_reply_without_records nan_to_none_def demo_reader_def py_replace_miss
        py_replace_Nil)
  have m: "map_of [(''txn_id'', ?ids)] ''txn_id'' = Some ?ids"
    by simp
  have rows: "show_rows demo_reader [?r1, ?r2] S =
      (Some ''SyntaxError'',
       emit [St_markdown (res_txn_id ?r1), St_markdown (root_cause ?r1),
             St_markdown (confidence_score ?r1), St_markdown (next_steps ?r1),
             St_expander (''** Detailed Report for '' @ res_txn_id ?r1 @ ''**''),
             St_markdown (''**Summary:** '' @ summary_report ?r1)] S)" for S
    using fail by (rule show_rows_failure)
  have whole: "batch_upload llm_first_no_records demo_reader demo_ledgers
       (Inr [(''txn_id'', ?ids)]) session0 =
      (emit [St_error '' Failed to process uploaded file.'', St_exception ''SyntaxError'']
         (emit [St_markdown (res_txn_id ?r1), St_markdown (root_cause ?r1),
             St_markdown (confidence_score ?r1), St_markdown (next_steps ?r1),
             St_expander (''** Detailed Report for '' @ res_txn_id ?r1 @ ''**''),
             St_markdown (''**Summary:** '' @ summary_report ?r1)]
           (emit summary_header
              (?st1\<lparr>calls := calls ?st1 @ map (prompt_of demo_ledgers) ?ids,
                    lookups := lookups ?st1 @ concat (map row_lookups ?ids),
                    ui := ui ?st1\<rparr>))),
       [?r1, ?r2])"
    unfolding batch_upload_def sum.case m option.case Let_def loop snd_conv fst_conv rows
    by simp
  show ?thesis
    unfolding whole
    by (simp add: emit_def session0_def n parse_reply_without_records parse_demo_reply)
qed

section \<open>Properties of the response parser\<close>

lemma match_ci_ci_prefix:
  "match_ci pat s = (if ci_prefix pat s then Some (drop (length pat) s) else None)"
  by (induction pat s rule: match_ci.induct) simp_all

lemma re_search_first_at:
  assumes "first_at (label @ '':'') s k"
  shows "re_search label s = Some (lazy_capture (drop (k + length label + 1) s))"
  using assms
proof (induction "label @ '':''" s k rule: first_at.induct)
  case (1 s)
  then show ?case
    by (cases s) (simp_all add: match_here_def match_ci_ci_prefix)
next
  case (2 k)
  then show ?case by simp
next
  case (3 c s k)
  then show ?case
    by (simp add: match_here_def match_ci_ci_prefix split: if_splits)
qed

lemma re_search_absent:
  assumes "\<not> occurs_ci (label @ '':'') s"
  shows "re_search label s = None"
  using assms
  by (induction s) (simp_all add: match_here_def match_ci_ci_prefix split: if_splits)

text \<open>The lazy group is the shortest prefix behind which the lookahead holds.\<close>

lemma lazy_capture_shortest:
  "\<exists>n\<le>length s. lazy_capture s = take n s \<and> lookahead (drop n s) \<and>
     (\<forall>m<n. \<not> lookahead (drop m s))"
proof (induction s)
  case Nil
  show ?case by simp
next
  case (Cons c s)
  show ?case
  proof (cases "lookahead (c # s)")
    case True
    then show ?thesis
      by (intro exI [of _ 0]) simp
  next
    case False
    from Cons.IH obtain n where n: "n \<le> length s" "lazy_capture s = take n s"
      "lookahead (drop n s)" "\<forall>m<n. \<not> lookahead (drop m s)"
      by blast
    have "\<forall>m<Suc n. \<not> lookahead (drop m (c # s))"
    proof (intro allI impI)
      fix m assume "m < Suc n"
      then show "\<not> lookahead (drop m (c # s))"
        using False n(4) by (cases m) simp_all
    qed
    with False n show ?thesis
      by (intro exI [of _ "Suc n"]) simp
  qed
qed

text \<open>
  Claim C10. The label is found wherever it occurs first, ignoring case, not only at the
  start of a line: when \<open>label:\<close> occurs first at position \<open>k\<close> of the text, the value of
  \<open>extract_section\<close> is the stripped capture that starts right behind that occurrence,
  and the capture is the shortest stretch behind which the text ends, ends with one newline,
  or goes on with a newline and a letter.
\<close>

theorem extract_section_first_occurrence:
  assumes "plain_label label"
      and "first_at (label @ '':'') txt k"
  shows "extract_section label txt = py_strip (lazy_capture (drop (k + length label + 1) txt)) \<and>
         (\<exists>n\<le>length (drop (k + length label + 1) txt).
            lazy_capture (drop (k + length label + 1) txt) =
              take n (drop (k + length label + 1) txt) \<and>
            lookahead (drop n (drop (k + length label + 1) txt)) \<and>
            (\<forall>m<n. \<not> lookahead (drop m (drop (k + length label + 1) txt))))"
  using re_search_first_at [OF assms(2)]
    lazy_capture_shortest [of "drop (k + length label + 1) txt"]
  by (simp add: extract_section_def)

theorem extract_section_first_occurrence_witness:
  "plain_label ''records'' \<and> first_at ''records:'' embedded_reply 16 \<and>
   extract_section ''records'' embedded_reply = ''none yet''"
proof -
  have p: "plain_label ''records''"
    by code_simp
  have f: "first_at (''records'' @ '':'') embedded_reply 16"
    by code_simp
  have c: "py_strip (lazy_capture (drop (16 + length ''records'' + 1) embedded_reply)) = ''none yet''"
    by code_simp
  have f': "first_at ''records:'' embedded_reply 16"
    using f by simp
  show ?thesis
    using p f' extract_section_first_occurrence [OF p f] by (simp only: c simp_thms)
qed

text \<open>
  Claim C4. When \<open>absent:\<close> occurs nowhere in the text, ignoring case, the value for that
  label is the placeholder \<open>-\<close>. The value for another label that does occur is the
  stripped capture behind its first occurrence, as on any text: it does not depend on the
  absent label.
\<close>

theorem extract_section_absent_label:
  assumes "plain_label absent" and "plain_label other"
      and "\<not> occurs_ci (absent @ '':'') txt"
      and "first_at (other @ '':'') txt k"
  shows "extract_section absent txt = ''-'' \<and>
         extract_section other txt =
           py_strip (lazy_capture (drop (k + length other + 1) txt))"
  using re_search_absent [OF assms(3)] re_search_first_at [OF assms(4)]
  by (simp add: extract_section_def)

theorem extract_section_absent_label_witness:
  "\<not> occurs_ci ''records:'' reply_without_records \<and>
   first_at ''summary_report:'' reply_without_records 79 \<and>
   extract_section ''records'' reply_without_records = ''-'' \<and>
   extract_section ''summary_report'' reply_without_records = ''CBS posted, switch failed''"
proof -
  have p: "plain_label ''records''" "plain_label ''summary_report''"
    by code_simp+
  have a: "\<not> occurs_ci (''records'' @ '':'') reply_without_records"
    by code_simp
  have f: "first_at (''summary_report'' @ '':'') reply_without_records 79"
    by code_simp
  have c: "py_strip (lazy_capture (drop (79 + length ''summary_report'' + 1) reply_without_records)) =
      ''CBS posted, switch failed''"
    by code_simp
  have a': "\<not> occurs_ci ''records:'' reply_without_records"
    using a by simp
  have f': "first_at ''summary_report:'' reply_without_records 79"
    using f by simp
  show ?thesis
    using a' f' extract_section_absent_label [OF p a f] by (simp only: c simp_thms)
qed

lemma newline_not_letter [simp]: "\<not> is_letter (CHR 0x0A)"
  by (simp add: is_letter_def is_upper_def is_lower_def)

lemma newline_is_space [simp]: "is_space (CHR 0x0A)"
  by (simp add: is_space_def)

lemma lazy_capture_until_line:
  assumes "no_line_start body" and "is_letter d"
  shows "lazy_capture (body @ CHR 0x0A # d # r) = body"
  using assms
  by (induction body rule: no_line_start.induct) auto

lemma lazy_capture_to_end:
  assumes "no_line_start body"
  shows "lazy_capture body = (if body \<noteq> [] \<and> last body = CHR 0x0A then butlast body else body)"
  using assms
  by (induction body rule: no_line_start.induct) auto

lemma py_strip_snoc_space:
  assumes "is_space w"
  shows "py_strip (xs @ [w]) = py_strip xs"
proof (cases "\<forall>x\<in>set xs. is_space x")
  case True
  then have a: "dropWhile is_space xs = []"
    by simp
  from True assms have b: "dropWhile is_space (xs @ [w]) = []"
    by simp
  show ?thesis
    by (simp only: py_strip_def a b)
next
  case False
  then have "dropWhile is_space (xs @ [w]) = dropWhile is_space xs @ [w]"
    by (auto simp: dropWhile_append)
  with assms show ?thesis
    by (simp add: py_strip_def)
qed

lemma py_strip_lazy_capture_to_end:
  assumes "no_line_start body"
  shows "py_strip (lazy_capture body) = py_strip body"
proof (cases "body \<noteq> [] \<and> last body = CHR 0x0A")
  case True
  then have "body = butlast body @ [CHR 0x0A]"
    by (metis append_butlast_last_id)
  then have "py_strip body = py_strip (butlast body)"
    using py_strip_snoc_space [of "CHR 0x0A" "butlast body"] by simp
  with True assms show ?thesis
    by (simp add: lazy_capture_to_end)
next
  case False
  with assms show ?thesis
    by (auto simp: lazy_capture_to_end)
qed

lemma py_strip_ends:
  "py_strip s = [] \<or> (\<not> is_space (hd (py_strip s)) \<and> \<not> is_space (last (py_strip s)))"
proof (cases "py_strip s = []")
  case True
  then show ?thesis by simp
next
  case False
  let ?d = "dropWhile is_space s"
  let ?e = "dropWhile is_space (rev ?d)"
  from False have e: "?e \<noteq> []"
    by (simp add: py_strip_def)
  have d: "?d \<noteq> []"
  proof
    assume a: "?d = []"
    have "?e = []" unfolding a by simp
    with e show False by simp
  qed
  have "\<not> is_space (hd ?e)"
    using e by (rule hd_dropWhile)
  then have l: "\<not> is_space (last (py_strip s))"
    using e by (simp add: py_strip_def last_rev)
  have "last ?e = last (rev ?d)"
    using e by (metis takeWhile_dropWhile_id last_appendR)
  then have "hd (py_strip s) = hd ?d"
    using e d by (simp add: py_strip_def hd_rev last_rev)
  moreover have "\<not> is_space (hd ?d)"
    using d by (rule hd_dropWhile)
  ultimately show ?thesis
    using l by simp
qed

lemma extract_section_at:
  assumes "first_at (label @ '':'') (before @ heading @ rest) (length before)"
      and "length heading = length label + 1"
  shows "extract_section label (before @ heading @ rest) = py_strip (lazy_capture rest)"
  using re_search_first_at [OF assms(1)] assms(2)
  by (simp add: extract_section_def)

text \<open>
  Claim C3, as amended. For a reply laid out by \<open>five_sections\<close> in which the first
  occurrence of each label with its colon is its heading, and in which no section has a line
  break directly followed by a letter, \<open>extract_section\<close> gives for each label the text
  between its colon and the next heading, stripped of white space at both ends (by
  \<open>py_strip_ends\<close> the stripped text neither starts nor ends with white space).
\<close>

theorem extract_five_sections:
  assumes "no_line_start s1" "no_line_start s2" "no_line_start s3" "no_line_start s4"
      and "no_line_start s5"
      and "txt = five_sections pre s1 s2 s3 s4 s5"
      and "first_at ''root_cause:'' txt (length pre)"
      and "first_at ''confidence_score:'' txt (length (pre @ ''root_cause:'' @ s1 @ ''\<newline>''))"
      and "first_at ''next_steps:'' txt
             (length (pre @ ''root_cause:'' @ s1 @ ''\<newline>confidence_score:'' @ s2 @ ''\<newline>''))"
      and "first_at ''summary_report:'' txt
             (length (pre @ ''root_cause:'' @ s1 @ ''\<newline>confidence_score:'' @ s2 @
                ''\<newline>next_steps:'' @ s3 @ ''\<newline>''))"
      and "first_at ''records:'' txt
             (length (pre @ ''root_cause:'' @ s1 @ ''\<newline>confidence_score:'' @ s2 @
                ''\<newline>next_steps:'' @ s3 @ ''\<newline>summary_report:'' @ s4 @ ''\<newline>''))"
  shows "extract_section ''root_cause'' txt = py_strip s1 \<and>
         extract_section ''confidence_score'' txt = py_strip s2 \<and>
         extract_section ''next_steps'' txt = py_strip s3 \<and>
         extract_section ''summary_report'' txt = py_strip s4 \<and>
         extract_section ''records'' txt = py_strip s5"
proof -
  have c: "is_letter CHR ''c''" "is_letter CHR ''n''" "is_letter CHR ''s''" "is_letter CHR ''r''"
    by (simp_all add: is_letter_def is_lower_def)
  let ?b1 = pre
  let ?r1 = "s1 @ ''\<newline>confidence_score:'' @ s2 @ ''\<newline>next_steps:'' @ s3 @
     ''\<newline>summary_report:'' @ s4 @ ''\<newline>records:'' @ s5"
  have t1: "txt = ?b1 @ ''root_cause:'' @ ?r1"
    by (simp add: assms(6) five_sections_def)
  have e1: "extract_section ''root_cause'' txt = py_strip (lazy_capture ?r1)"
    unfolding t1 by (rule extract_section_at) (use assms(7) t1 in simp_all)
  have l1: "lazy_capture ?r1 = s1"
    using lazy_capture_until_line [OF assms(1) c(1)] by simp
  let ?b2 = "pre @ ''root_cause:'' @ s1 @ ''\<newline>''"
  let ?r2 = "s2 @ ''\<newline>next_steps:'' @ s3 @ ''\<newline>summary_report:'' @ s4 @ ''\<newline>records:'' @ s5"
  have t2: "txt = ?b2 @ ''confidence_score:'' @ ?r2"
    by (simp add: assms(6) five_sections_def)
  have e2: "extract_section ''confidence_score'' txt = py_strip (lazy_capture ?r2)"
    unfolding t2 by (rule extract_section_at) (use assms(8) t2 in simp_all)
  have l2: "lazy_capture ?r2 = s2"
    using lazy_capture_until_line [OF assms(2) c(2)] by simp
  let ?b3 = "pre @ ''root_cause:'' @ s1 @ ''\<newline>confidence_score:'' @ s2 @ ''\<newline>''"
  let ?r3 = "s3 @ ''\<newline>summary_report:'' @ s4 @ ''\<newline>records:'' @ s5"
  have t3: "txt = ?b3 @ ''next_steps:'' @ ?r3"
    by (simp add: assms(6) five_sections_def)
  have e3: "extract_section ''next_steps'' txt = py_strip (lazy_capture ?r3)"
    unfolding t3 by (rule extract_section_at) (use assms(9) t3 in simp_all)
  have l3: "lazy_capture ?r3 = s3"
    using lazy_capture_until_line [OF assms(3) c(3)] by simp
  let ?b4 = "pre @ ''root_cause:'' @ s1 @ ''\<newline>confidence_score:'' @ s2 @
                ''\<newline>next_steps:'' @ s3 @ ''\<newline>''"
  let ?r4 = "s4 @ ''\<newline>records:'' @ s5"
  have t4: "txt = ?b4 @ ''summary_report:'' @ ?r4"
    by (simp add: assms(6) five_sections_def)
  have e4: "extract_section ''summary_report'' txt = py_strip (lazy_capture ?r4)"
    unfolding t4 by (rule extract_section_at) (use assms(10) t4 in simp_all)
  have l4: "lazy_capture ?r4 = s4"
    using lazy_capture_until_line [OF assms(4) c(4)] by simp
  let ?b5 = "pre @ ''root_cause:'' @ s1 @ ''\<newline>confidence_score:'' @ s2 @
                ''\<newline>next_steps:'' @ s3 @ ''\<newline>summary_report:'' @ s4 @ ''\<newline>''"
  have t5: "txt = ?b5 @ ''records:'' @ s5"
    by (simp add: assms(6) five_sections_def)
  have e5: "extract_section ''records'' txt = py_strip (lazy_capture s5)"
    unfolding t5 by (rule extract_section_at) (use assms(11) t5 in simp_all)
  show ?thesis
    by (simp only: e1 l1 e2 l2 e3 l3 e4 l4 e5 py_strip_lazy_capture_to_end [OF assms(5)] simp_thms)
qed

theorem extract_five_sections_witness:
  "no_line_start '' Retry the payment\<newline>- call the switch team'' \<and>
   first_at ''records:'' multi_line_reply 156 \<and>
   extract_section ''root_cause'' multi_line_reply = ''Switch timeout'' \<and>
   extract_section ''confidence_score'' multi_line_reply = ''90%'' \<and>
   extract_section ''next_steps'' multi_line_reply = ''Retry the payment\<newline>- call the switch team'' \<and>
   extract_section ''summary_report'' multi_line_reply = ''CBS posted, switch failed'' \<and>
   extract_section ''records'' multi_line_reply = ''{'CBS': {'amount': 100}}''"
proof -
  let ?pre = "''Here you go\<newline>''"
  let ?s1 = "'' Switch timeout''"
  let ?s2 = "'' 90%''"
  let ?s3 = "'' Retry the payment\<newline>- call the switch team''"
  let ?s4 = "'' CBS posted, switch failed''"
  let ?s5 = "'' {'CBS': {'amount': 100}}\<newline>''"
  have n: "no_line_start ?s1" "no_line_start ?s2" "no_line_start ?s3" "no_line_start ?s4"
    "no_line_start ?s5"
    by code_simp+
  have t: "multi_line_reply = five_sections ?pre ?s1 ?s2 ?s3 ?s4 ?s5"
    by (simp add: multi_line_reply_def)
  have f1: "first_at ''root_cause:'' multi_line_reply (length ?pre)"
    by code_simp
  have f2: "first_at ''confidence_score:'' multi_line_reply
      (length (?pre @ ''root_cause:'' @ ?s1 @ ''\<newline>''))"
    by code_simp
  have f3: "first_at ''next_steps:'' multi_line_reply
      (length (?pre @ ''root_cause:'' @ ?s1 @ ''\<newline>confidence_score:'' @ ?s2 @ ''\<newline>''))"
    by code_simp
  have f4: "first_at ''summary_report:'' multi_line_reply
      (length (?pre @ ''root_cause:'' @ ?s1 @ ''\<newline>confidence_score:'' @ ?s2 @
                ''\<newline>next_steps:'' @ ?s3 @ ''\<newline>''))"
    by code_simp
  have f5: "first_at ''records:'' multi_line_reply
      (length (?pre @ ''root_cause:'' @ ?s1 @ ''\<newline>confidence_score:'' @ ?s2 @
                ''\<newline>next_steps:'' @ ?s3 @ ''\<newline>summary_report:'' @ ?s4 @ ''\<newline>''))"
    by code_simp
  have k: "first_at ''records:'' multi_line_reply 156"
    by code_simp
  have s: "py_strip ?s1 = ''Switch timeout''" "py_strip ?s2 = ''90%''"
    "py_strip ?s3 = ''Retry the payment\<newline>- call the switch team''"
    "py_strip ?s4 = ''CBS posted, switch failed''"
    "py_strip ?s5 = ''{'CBS': {'amount': 100}}''"
    by code_simp+
  note e = extract_five_sections [OF n t f1 f2 f3 f4 f5]
  show ?thesis
    using n(3) k e by (simp only: s simp_thms)
qed

text \<open>
  Claim C3 as stated fails: the five labels are there in order, but the second line of the
  first section starts with a letter, and the capture ends before it.
\<close>

theorem extract_five_sections_counterexample:
  "extract_section ''root_cause''
     (five_sections [] '' Timeout\<newline>Switch declined'' '' 90%'' '' Retry'' '' ok'' '' {}'') =
     ''Timeout'' \<and>
   extract_section ''root_cause''
     (five_sections [] '' Timeout\<newline>Switch declined'' '' 90%'' '' Retry'' '' ok'' '' {}'') \<noteq>
     py_strip '' Timeout\<newline>Switch declined''"
  by code_simp

section \<open>Properties of the normalization\<close>

lemma noise_text_simps [simp]:
  "noise_text [] = []"
  "noise_text (m # ms) = marker_text m @ noise_text ms"
  by (simp_all add: noise_text_def)

lemma occurs_prefix: "prefix pat s \<Longrightarrow> occurs pat s"
  by (cases s) simp_all

lemma occurs_Cons: "occurs pat s \<Longrightarrow> occurs pat (c # s)"
  by simp

text \<open>No occurrence of \<open>old\<close> starts in \<open>r\<close> when \<open>r\<close> holds none and either what follows
  does not start with a later character of \<open>old\<close>, or \<open>r\<close> does not end with an earlier one.\<close>

lemma no_crossing_prefix:
  assumes "\<not> occurs old (c # r)"
      and "z = [] \<or> hd z \<notin> set (tl old) \<or> last (c # r) \<notin> set (butlast old)"
  shows "\<not> prefix old (c # r @ z)"
proof
  assume p: "prefix old (c # r @ z)"
  then have "prefix old ((c # r) @ z)" by simp
  then consider "prefix old (c # r)" | us where "old = (c # r) @ us" "prefix us z"
    unfolding prefix_append by blast
  then show False
  proof cases
    case 1
    then show ?thesis using assms(1) occurs_prefix by blast
  next
    case 2
    show ?thesis
    proof (cases us)
      case Nil
      with 2 have "prefix old (c # r)" by simp
      then show ?thesis using assms(1) occurs_prefix by blast
    next
      case (Cons u us')
      with 2 obtain z' where z: "z = u # z'"
        by (cases z) (auto simp: prefix_def)
      have "u \<in> set (tl old)"
        using 2(1) Cons by simp
      moreover have "last (c # r) \<in> set (butlast old)"
      proof -
        have "butlast old = (c # r) @ butlast us"
          using 2(1) Cons by (simp add: butlast_append)
        then show ?thesis
          by (metis in_set_conv_decomp append_butlast_last_id list.distinct(1) append.assoc
              last_in_set Un_iff set_append)
      qed
      ultimately show ?thesis
        using assms(2) z by auto
    qed
  qed
qed

lemma py_replace_no_cross:
  assumes "old \<noteq> []" and "\<not> occurs old r"
      and "z = [] \<or> hd z \<notin> set (tl old) \<or> r = [] \<or> last r \<notin> set (butlast old)"
  shows "py_replace old [] (r @ z) = r @ py_replace old [] z"
  using assms(2,3)
proof (induction r)
  case Nil
  show ?case by simp
next
  case (Cons c r)
  have no: "\<not> prefix old (c # r @ z)"
    using Cons.prems by (intro no_crossing_prefix) auto
  have rest: "\<not> occurs old r"
    using Cons.prems(1) by (auto split: if_splits)
  have side: "z = [] \<or> hd z \<notin> set (tl old) \<or> r = [] \<or> last r \<notin> set (butlast old)"
    using Cons.prems(2) by (cases "r = []") auto
  show ?case
    using Cons.IH [OF rest side] no by (simp add: py_replace_miss assms(1))
qed

text \<open>A stretch without the first character of \<open>old\<close> is copied.\<close>

lemma py_replace_skip:
  assumes "old \<noteq> []" and "hd old \<notin> set a"
  shows "py_replace old [] (a @ y) = a @ py_replace old [] y"
  using assms(2)
proof (induction a)
  case Nil
  show ?case by simp
next
  case (Cons c a)
  from Cons.prems assms(1) have "\<not> prefix old (c # a @ y)"
    by (cases old) auto
  with Cons show ?case
    by (simp add: py_replace_miss assms(1))
qed

lemma output_in_solution:
  "py_replace ''output:'' [] (''Here is the solution:'' @ y) =
     ''Here is the solution:'' @ py_replace ''output:'' [] y"
  by (simp add: py_replace_miss)

lemma pass_fence_markers:
  "py_replace fence [] (noise_text ms @ y) =
     noise_text (filter (\<lambda>m. m \<noteq> Fence) ms) @ py_replace fence [] y"
proof (induction ms)
  case Nil
  show ?case by simp
next
  case (Cons m ms)
  show ?case
  proof (cases m)
    case Fence
    then show ?thesis
      using Cons py_replace_hit [of fence "[]" "noise_text ms @ y"] by (simp add: fence_def)
  next
    case Output_prefix
    then show ?thesis
      using Cons py_replace_skip [of fence "''output:''" "noise_text ms @ y"]
      by (simp add: fence_def)
  next
    case Solution_prefix
    then show ?thesis
      using Cons py_replace_skip [of fence "''Here is the solution:''" "noise_text ms @ y"]
      by (simp add: fence_def)
  qed
qed

lemma pass_output_markers:
  "py_replace ''output:'' [] (noise_text ms @ y) =
     noise_text (filter (\<lambda>m. m \<noteq> Output_prefix) ms) @ py_replace ''output:'' [] y"
proof (induction ms)
  case Nil
  show ?case by simp
next
  case (Cons m ms)
  show ?case
  proof (cases m)
    case Fence
    then show ?thesis
      using Cons py_replace_skip [of "''output:''" fence "noise_text ms @ y"]
      by (simp add: fence_def)
  next
    case Output_prefix
    then show ?thesis
      using Cons py_replace_hit [of "''output:''" "[]" "noise_text ms @ y"] by simp
  next
    case Solution_prefix
    then show ?thesis
      using Cons output_in_solution [of "noise_text ms @ y"] by simp
  qed
qed

lemma pass_solution_markers:
  "py_replace ''Here is the solution:'' [] (noise_text ms @ y) =
     noise_text (filter (\<lambda>m. m \<noteq> Solution_prefix) ms) @ py_replace ''Here is the solution:'' [] y"
proof (induction ms)
  case Nil
  show ?case by simp
next
  case (Cons m ms)
  show ?case
  proof (cases m)
    case Fence
    then show ?thesis
      using Cons py_replace_skip [of "''Here is the solution:''" fence "noise_text ms @ y"]
      by (simp add: fence_def)
  next
    case Output_prefix
    then show ?thesis
      using Cons py_replace_skip [of "''Here is the solution:''" "''output:''" "noise_text ms @ y"]
      by simp
  next
    case Solution_prefix
    then show ?thesis
      using Cons py_replace_hit [of "''Here is the solution:''" "[]" "noise_text ms @ y"] by simp
  qed
qed

lemma occurs_append_left: "occurs pat b \<Longrightarrow> occurs pat (a @ b)"
  by (induction a) simp_all

lemma occurs_append_right: "occurs pat a \<Longrightarrow> occurs pat (a @ b)"
proof (induction a)
  case Nil
  then show ?case
    by (cases b) simp_all
next
  case (Cons c a)
  then show ?case
    using prefix_prefix [of pat "c # a" b] by (auto split: if_splits)
qed

lemma fence_hit: "py_replace fence [] (fence @ y) = py_replace fence [] y"
  using py_replace_hit [of fence "[]" y] by (simp add: fence_def)

lemma replicate_three: "replicate j x @ [x, x, x] = x # x # x # replicate j x"
  by (induction j) simp_all

lemma few_backquotes: "j < 3 \<Longrightarrow> \<not> occurs fence (replicate j bt)"
proof -
  assume "j < 3"
  then have "j = 0 \<or> j = 1 \<or> j = 2" by auto
  then show ?thesis
    by (auto simp: fence_def numeral_2_eq_2)
qed

text \<open>Fewer than three backquotes before a run of markers stay where they are.\<close>

lemma pass_fence_after_backquotes:
  assumes "j < 3"
  shows "py_replace fence [] (replicate j bt @ noise_text ns) =
     replicate j bt @ noise_text (filter (\<lambda>m. m \<noteq> Fence) ns)"
proof (induction ns)
  case Nil
  show ?case
    using py_replace_no_cross [of fence "replicate j bt" "[]"] few_backquotes [OF assms]
    by (simp add: fence_def py_replace_Nil)
next
  case (Cons m ns)
  show ?case
  proof (cases "m = Fence")
    case True
    have "replicate j bt @ noise_text (m # ns) = fence @ (replicate j bt @ noise_text ns)"
      using True replicate_three [of j bt] by (simp add: fence_def)
    then have "py_replace fence [] (replicate j bt @ noise_text (m # ns)) =
        py_replace fence [] (fence @ (replicate j bt @ noise_text ns))"
      by (simp only:)
    also have "\<dots> = py_replace fence [] (replicate j bt @ noise_text ns)"
      by (rule fence_hit)
    finally show ?thesis
      using Cons True by simp
  next
    case False
    then have hd: "hd (noise_text (m # ns)) \<notin> set (tl fence)"
      by (cases m) (simp_all add: fence_def)
    have "py_replace fence [] (replicate j bt @ noise_text (m # ns)) =
        replicate j bt @ py_replace fence [] (noise_text (m # ns))"
      using few_backquotes [OF assms] hd
      by (intro py_replace_no_cross) (simp_all add: fence_def)
    then show ?thesis
      using pass_fence_markers [of "m # ns" "[]"] by (simp add: fence_def py_replace_Nil)
  qed
qed

lemma backquote_tail:
  "\<exists>r0 j. r = r0 @ replicate j bt \<and> (r0 = [] \<or> last r0 \<noteq> bt)"
proof (induction r rule: rev_induct)
  case Nil
  show ?case by simp
next
  case (snoc x xs)
  show ?case
  proof (cases "x = bt")
    case True
    from snoc obtain r0 j where "xs = r0 @ replicate j bt" "r0 = [] \<or> last r0 \<noteq> bt"
      by blast
    then have "xs @ [x] = r0 @ replicate (Suc j) bt \<and> (r0 = [] \<or> last r0 \<noteq> bt)"
      using True by (simp add: replicate_append_same)
    then show ?thesis by blast
  next
    case False
    then have "xs @ [x] = (xs @ [x]) @ replicate 0 bt \<and> (xs @ [x] = [] \<or> last (xs @ [x]) \<noteq> bt)"
      by simp
    then show ?thesis by blast
  qed
qed

text \<open>The first pass on a text without a fence, followed by markers.\<close>

lemma pass_fence_reply:
  assumes "\<not> occurs fence r"
  shows "py_replace fence [] (r @ noise_text ns) = r @ noise_text (filter (\<lambda>m. m \<noteq> Fence) ns)"
proof -
  from backquote_tail [of r] obtain r0 j where r: "r = r0 @ replicate j bt"
    and l: "r0 = [] \<or> last r0 \<noteq> bt"
    by blast
  have j: "j < 3"
  proof (rule ccontr)
    assume "\<not> j < 3"
    then obtain n where "j = 3 + n"
      using le_Suc_ex not_less by blast
    then have "replicate j bt = fence @ replicate n bt"
      by (simp add: fence_def numeral_3_eq_3)
    then have "occurs fence (replicate j bt)"
      using occurs_prefix [of fence "replicate j bt"] by (simp add: prefix_def)
    then have "occurs fence r"
      unfolding r by (rule occurs_append_left)
    with assms show False by simp
  qed
  have no: "\<not> occurs fence r0"
    using assms occurs_append_right [of fence r0 "replicate j bt"] unfolding r by blast
  have "py_replace fence [] (r0 @ (replicate j bt @ noise_text ns)) =
      r0 @ py_replace fence [] (replicate j bt @ noise_text ns)"
    using no l by (intro py_replace_no_cross) (auto simp: fence_def)
  then show ?thesis
    unfolding r using pass_fence_after_backquotes [OF j, of ns] by simp
qed


lemma all_markers_filtered:
  "filter (\<lambda>m. m \<noteq> Solution_prefix)
     (filter (\<lambda>m. m \<noteq> Output_prefix) (filter (\<lambda>m. m \<noteq> Fence) ms)) = []"
proof (induction ms)
  case Nil
  show ?case by simp
next
  case (Cons m ms)
  then show ?case by (cases m) simp_all
qed

lemma hd_noise_text_output:
  "noise_text ns = [] \<or> hd (noise_text ns) \<notin> set (tl ''output:'')"
proof (cases ns)
  case Nil
  then show ?thesis by simp
next
  case (Cons m ms)
  then show ?thesis by (cases m) (simp_all add: fence_def)
qed

lemma hd_noise_text_solution:
  assumes "\<forall>m\<in>set ns. m = Solution_prefix"
  shows "noise_text ns = [] \<or> hd (noise_text ns) \<notin> set (tl ''Here is the solution:'')"
proof (cases ns)
  case Nil
  then show ?thesis by simp
next
  case (Cons m ms)
  with assms have "m = Solution_prefix" by simp
  with Cons show ?thesis by simp
qed

text \<open>
  Claim C6, as amended. For every reply text that holds none of the three markers (the code
  fence, \<open>output:\<close>, \<open>Here is the solution:\<close>), putting any run of markers before it and
  any run of markers behind it and then normalizing gives the reply back; so
  \<open>extract_section\<close> gives for each of the five labels the same text as on the reply itself.
\<close>

theorem normalize_wrapped_reply:
  assumes "\<not> occurs fence r" and "\<not> occurs ''output:'' r"
      and "\<not> occurs ''Here is the solution:'' r"
  shows "normalize_reply (noise_text ms @ r @ noise_text ns) = r \<and>
         map (\<lambda>l. extract_section l (normalize_reply (noise_text ms @ r @ noise_text ns)))
           section_labels =
         map (\<lambda>l. extract_section l r) section_labels"
proof -
  let ?ms1 = "filter (\<lambda>m. m \<noteq> Fence) ms" and ?ns1 = "filter (\<lambda>m. m \<noteq> Fence) ns"
  let ?ms2 = "filter (\<lambda>m. m \<noteq> Output_prefix) ?ms1"
  let ?ns2 = "filter (\<lambda>m. m \<noteq> Output_prefix) ?ns1"
  have p1: "py_replace fence [] (noise_text ms @ r @ noise_text ns) =
      noise_text ?ms1 @ r @ noise_text ?ns1"
    by (simp only: pass_fence_markers pass_fence_reply [OF assms(1)])
  have "py_replace ''output:'' [] (r @ noise_text ?ns1) =
      r @ py_replace ''output:'' [] (noise_text ?ns1)"
    using assms(2) hd_noise_text_output [of ?ns1] by (intro py_replace_no_cross) auto
  also have "py_replace ''output:'' [] (noise_text ?ns1) = noise_text ?ns2"
    using pass_output_markers [of ?ns1 "[]"] by (simp add: py_replace_Nil)
  finally have p2: "py_replace ''output:'' [] (noise_text ?ms1 @ r @ noise_text ?ns1) =
      noise_text ?ms2 @ r @ noise_text ?ns2"
    by (simp only: pass_output_markers)
  have only: "\<forall>m\<in>set ?ns2. m = Solution_prefix"
  proof
    fix m assume "m \<in> set ?ns2"
    then have "m \<noteq> Output_prefix \<and> m \<noteq> Fence"
      unfolding set_filter by blast
    then show "m = Solution_prefix" by (cases m) simp_all
  qed
  have "py_replace ''Here is the solution:'' [] (r @ noise_text ?ns2) =
      r @ py_replace ''Here is the solution:'' [] (noise_text ?ns2)"
    using assms(3) hd_noise_text_solution [OF only] by (intro py_replace_no_cross) auto
  also have "py_replace ''Here is the solution:'' [] (noise_text ?ns2) =
      noise_text (filter (\<lambda>m. m \<noteq> Solution_prefix) ?ns2)"
    using pass_solution_markers [of ?ns2 "[]"] by (simp add: py_replace_Nil)
  finally have p3: "py_replace ''Here is the solution:'' [] (noise_text ?ms2 @ r @ noise_text ?ns2) = r"
    by (simp only: pass_solution_markers all_markers_filtered) simp
  have "normalize_reply (noise_text ms @ r @ noise_text ns) = r"
    by (simp only: normalize_reply_def p1 p2 p3)
  then show ?thesis by simp
qed

theorem normalize_wrapped_reply_witness:
  "\<not> occurs fence demo_reply \<and> \<not> occurs ''output:'' demo_reply \<and>
   \<not> occurs ''Here is the solution:'' demo_reply \<and>
   normalize_reply (''Here is the solution:'' @ fence @ demo_reply @ fence) = demo_reply \<and>
   extract_section ''records'' (normalize_reply (''Here is the solution:'' @ fence @ demo_reply @ fence)) =
     extract_section ''records'' demo_reply"
proof -
  have h: "\<not> occurs fence demo_reply" "\<not> occurs ''output:'' demo_reply"
    "\<not> occurs ''Here is the solution:'' demo_reply"
    by code_simp+
  have t: "noise_text [Solution_prefix, Fence] @ demo_reply @ noise_text [Fence] =
      ''Here is the solution:'' @ fence @ demo_reply @ fence"
    by simp
  have "normalize_reply (''Here is the solution:'' @ fence @ demo_reply @ fence) = demo_reply"
    using normalize_wrapped_reply [OF h, of "[Solution_prefix, Fence]" "[Fence]"]
    unfolding t by blast
  with h show ?thesis by simp
qed

text \<open>
  Claim C6 as stated fails for a well-formed reply that has a marker in its own text: the
  normalization removes it there too, and the summary differs from that of the unwrapped
  reply.
\<close>

theorem normalize_wrapped_reply_counterexample:
  "extract_section ''summary_report''
     (normalize_reply (fence @ reply_mentioning_output @ fence)) = ''Switch  timeout'' \<and>
   extract_section ''summary_report'' reply_mentioning_output = ''Switch output: timeout''"
  by code_simp

section \<open>Properties of the prompt builder\<close>

lemma count_occurrences_separator:
  assumes "pat \<noteq> []" and "c \<notin> set pat"
  shows "count_occurrences pat (a @ c # b) = count_occurrences pat a + count_occurrences pat b"
proof (induction a)
  case Nil
  from assms have "\<not> prefix pat (c # b)"
    by (cases pat) auto
  with assms(1) show ?case by simp
next
  case (Cons x a)
  have "prefix pat (x # a @ c # b) \<longleftrightarrow> prefix pat (x # a)"
  proof
    assume "prefix pat (x # a @ c # b)"
    then have "prefix pat ((x # a) @ c # b)" by simp
    then consider "prefix pat (x # a)" | us where "pat = (x # a) @ us" "prefix us (c # b)" "us \<noteq> []"
      unfolding prefix_append by (metis append_Nil2 prefix_order.order_refl)
    then show "prefix pat (x # a)"
    proof cases
      case 1
      then show ?thesis .
    next
      case 2
      then have "c \<in> set pat"
        by (cases us) (auto simp: prefix_def)
      with assms(2) show ?thesis by simp
    qed
  next
    assume "prefix pat (x # a)"
    then show "prefix pat (x # a @ c # b)"
      using prefix_prefix [of pat "x # a" "c # b"] by simp
  qed
  with Cons show ?case by simp
qed

lemma count_na_separator:
  "count_occurrences ''N/A'' (a @ CHR 0x0A # b) =
     count_occurrences ''N/A'' a + count_occurrences ''N/A'' b"
  by (rule count_occurrences_separator) simp_all

lemma count_template_0: "count_occurrences ''N/A'' (template_0 @ x) = count_occurrences ''N/A'' x"
  by (simp add: template_0_def)


lemma count_template_5: "count_occurrences ''N/A'' (x @ template_5) = count_occurrences ''N/A'' x"
  by (simp add: template_5_def count_na_separator)

text \<open>The template has no \<open>N/A\<close> of its own, and every placeholder stands between a blank
  or a line break and a line break, so the occurrences in the prompt are those in the five
  inserted texts.\<close>

lemma count_na_prompt_format:
  "count_occurrences ''N/A'' (prompt_format ev) =
     count_occurrences ''N/A'' (ev_txn_id ev) + count_occurrences ''N/A'' (ev_cbs ev) +
     count_occurrences ''N/A'' (ev_mpesa ev) + count_occurrences ''N/A'' (ev_switch ev) +
     count_occurrences ''N/A'' (ev_disb ev)"
proof -
  have "count_occurrences ''N/A'' (prompt_format ev) =
      count_occurrences ''N/A'' (ev_txn_id ev @ template_1 @ ev_cbs ev @ template_2 @ ev_mpesa ev @
        template_3 @ ev_switch ev @ template_4 @ ev_disb ev @ template_5)"
    by (simp only: prompt_format_def count_template_0)
  also have "\<dots> = count_occurrences ''N/A'' (ev_txn_id ev) +
      count_occurrences ''N/A'' (ev_cbs ev @ template_2 @ ev_mpesa ev @
        template_3 @ ev_switch ev @ template_4 @ ev_disb ev @ template_5)"
    by (simp add: template_1_def count_na_separator)
  also have "count_occurrences ''N/A'' (ev_cbs ev @ template_2 @ ev_mpesa ev @
        template_3 @ ev_switch ev @ template_4 @ ev_disb ev @ template_5) =
      count_occurrences ''N/A'' (ev_cbs ev) +
      count_occurrences ''N/A'' (ev_mpesa ev @ template_3 @ ev_switch ev @ template_4 @
        ev_disb ev @ template_5)"
    by (simp add: template_2_def count_na_separator)
  also have "count_occurrences ''N/A'' (ev_mpesa ev @ template_3 @ ev_switch ev @ template_4 @
        ev_disb ev @ template_5) =
      count_occurrences ''N/A'' (ev_mpesa ev) +
      count_occurrences ''N/A'' (ev_switch ev @ template_4 @ ev_disb ev @ template_5)"
    by (simp add: template_3_def count_na_separator)
  also have "count_occurrences ''N/A'' (ev_switch ev @ template_4 @ ev_disb ev @ template_5) =
      count_occurrences ''N/A'' (ev_switch ev) + count_occurrences ''N/A'' (ev_disb ev @ template_5)"
    by (simp add: template_4_def count_na_separator)
  also have "count_occurrences ''N/A'' (ev_disb ev @ template_5) =
      count_occurrences ''N/A'' (ev_disb ev)"
    by (rule count_template_5)
  finally show ?thesis by simp
qed

text \<open>
  Claim C8, as amended. For a transaction with a core-banking row and a switch row and
  without mobile-money and disbursement rows, the two absent slots of the evidence bundle
  are \<open>N/A\<close>, and the prompt holds \<open>N/A\<close> exactly twice more often than the transaction id
  and the texts of the two rows hold it; so exactly twice when these three do not hold it.
\<close>

theorem prompt_na_markers:
  assumes "get_row (cbs L) t = c # cs" and "get_row (switch L) t = w # ws"
      and "get_row (mpesa L) t = []" and "get_row (disb L) t = []"
  shows "ev_mpesa (evidence_bundle t c (get_row (mpesa L) t) (get_row (switch L) t)
            (get_row (disb L) t)) = ''N/A'' \<and>
         ev_disb (evidence_bundle t c (get_row (mpesa L) t) (get_row (switch L) t)
            (get_row (disb L) t)) = ''N/A'' \<and>
         count_occurrences ''N/A'' (prompt_of L t) =
           2 + count_occurrences ''N/A'' t + count_occurrences ''N/A'' (row_str c) +
             count_occurrences ''N/A'' (row_str w)"
  using assms
  by (simp add: count_na_prompt_format evidence_bundle_def na_or_first_def prompt_of_def)

theorem prompt_na_markers_witness:
  "get_row (mpesa demo_ledgers) ''TXN1'' = [] \<and> get_row (disb demo_ledgers) ''TXN1'' = [] \<and>
   count_occurrences ''N/A'' (prompt_of demo_ledgers ''TXN1'') = 2"
proof -
  let ?c = "\<lparr>txn_id = ''TXN1'', row_str = ''{'txn_id': 'TXN1', 'amount': 100}''\<rparr>"
  let ?w = "\<lparr>txn_id = ''TXN1'', row_str = ''{'txn_id': 'TXN1', 'status': 'ok'}''\<rparr>"
  have h1: "get_row (cbs demo_ledgers) ''TXN1'' = ?c # []"
    by (simp add: get_row_def demo_ledgers_def)
  have h2: "get_row (switch demo_ledgers) ''TXN1'' = ?w # []"
    by (simp add: get_row_def demo_ledgers_def)
  have h3: "get_row (mpesa demo_ledgers) ''TXN1'' = []"
    by (simp add: get_row_def demo_ledgers_def)
  have h4: "get_row (disb demo_ledgers) ''TXN1'' = []"
    by (simp add: get_row_def demo_ledgers_def)
  have z: "count_occurrences ''N/A'' ''TXN1'' = 0"
    "count_occurrences ''N/A'' (row_str ?c) = 0"
    "count_occurrences ''N/A'' (row_str ?w) = 0"
    by code_simp+
  have "count_occurrences ''N/A'' (prompt_of demo_ledgers ''TXN1'') =
      2 + count_occurrences ''N/A'' ''TXN1'' + count_occurrences ''N/A'' (row_str ?c) +
        count_occurrences ''N/A'' (row_str ?w)"
    using prompt_na_markers [OF h1 h2 h3 h4] by blast
  then have "count_occurrences ''N/A'' (prompt_of demo_ledgers ''TXN1'') = 2"
    by (simp only: z)
  with h3 h4 show ?thesis by blast
qed

text \<open>
  Claim C8 as stated fails when an inserted text has \<open>N/A\<close> inside: for the transaction id
  \<open>TXN/A1\<close> the prompt holds it five times.
\<close>

theorem prompt_na_markers_counterexample:
  "get_row (cbs slash_ledgers) ''TXN/A1'' \<noteq> [] \<and> get_row (switch slash_ledgers) ''TXN/A1'' \<noteq> [] \<and>
   get_row (mpesa slash_ledgers) ''TXN/A1'' = [] \<and> get_row (disb slash_ledgers) ''TXN/A1'' = [] \<and>
   count_occurrences ''N/A'' (prompt_of slash_ledgers ''TXN/A1'') = 5"
proof -
  let ?c = "\<lparr>txn_id = ''TXN/A1'', row_str = ''{'txn_id': 'TXN/A1', 'amount': 100}''\<rparr>"
  let ?w = "\<lparr>txn_id = ''TXN/A1'', row_str = ''{'txn_id': 'TXN/A1', 'status': 'ok'}''\<rparr>"
  have ev: "evidence_bundle ''TXN/A1'' (hd (get_row (cbs slash_ledgers) ''TXN/A1''))
       (get_row (mpesa slash_ledgers) ''TXN/A1'') (get_row (switch slash_ledgers) ''TXN/A1'')
       (get_row (disb slash_ledgers) ''TXN/A1'') =
      \<lparr>ev_txn_id = ''TXN/A1'', ev_cbs = row_str ?c, ev_mpesa = ''N/A'', ev_switch = row_str ?w,
       ev_disb = ''N/A''\<rparr>"
    by (simp add: evidence_bundle_def na_or_first_def get_row_def slash_ledgers_def)
  have z: "count_occurrences ''N/A'' ''TXN/A1'' = 1"
    "count_occurrences ''N/A'' (row_str ?c) = 1"
    "count_occurrences ''N/A'' (row_str ?w) = 1"
    "count_occurrences ''N/A'' ''N/A'' = 1"
    by code_simp+
  have "count_occurrences ''N/A'' (prompt_of slash_ledgers ''TXN/A1'') = 5"
    unfolding prompt_of_def ev count_na_prompt_format by (simp add: z)
  then show ?thesis
    by (simp add: get_row_def slash_ledgers_def)
qed

end
